theory Spec2Isabelle
  imports Complex_Main "HOL-Library.Product_Lexorder" "HOL-Library.Multiset"
begin

section \<open>The OMR decoding core of \<^verbatim>\<open>pServer/models/scan.py\<close>\<close>

text \<open>
  The functions of \<^verbatim>\<open>scan.py\<close> that group bubbles, resolve marks, score a sheet and
  run the pipeline are embedded as HOL functions. Conventions:
  \<^item> Python integers are \<open>int\<close>; counters that only count up from 0 are \<open>nat\<close>.
  \<^item> A Python \<open>str\<close> is the list of its code points (\<open>pystr\<close>); \<open>py ''abc''\<close> is a literal.
  \<^item> A raised exception is the \<open>Inl\<close> side of a sum; the exception's class is the
    constructor and its argument is the message.
  \<^item> Python floats (the results of \<open>/\<close>, \<open>np.mean\<close>, the constants \<open>0.1\<close>, \<open>0.3\<close>) are
    exact rationals: rounding is not modelled. The statements about the grouper below
    (how many rows, in which order) do not depend on the values of the centers and
    tolerances.
  \<^item> The calls into the image library (\<open>cv2\<close>) are parameters of the functions that
    use them, and so are the stages that consist of such calls only.
  \<^item> Sorting is \<open>sort_key\<close>, which is stable like Python's \<open>sorted\<close>.
\<close>

subsection \<open>Strings and exceptions\<close>

type_synonym pystr = "nat list"

definition py :: "string \<Rightarrow> pystr" where
  "py s = map of_char s"

datatype py_exception =
    ValueError pystr
  | ZeroDivisionError pystr
  | TypeError pystr
  | IndexError pystr
  | LibraryError pystr

text \<open>\<open>str(e)\<close> of an exception built from one message.\<close>

fun str_exn :: "py_exception \<Rightarrow> pystr" where
  "str_exn (ValueError m) = m"
| "str_exn (ZeroDivisionError m) = m"
| "str_exn (TypeError m) = m"
| "str_exn (IndexError m) = m"
| "str_exn (LibraryError m) = m"

text \<open>Decimal digits of a natural number, for the messages that print one.\<close>

fun digits_fuel :: "nat \<Rightarrow> nat \<Rightarrow> pystr" where
  "digits_fuel 0 n = [48 + n mod 10]"
| "digits_fuel (Suc k) n =
     (if n < 10 then [48 + n] else digits_fuel k (n div 10) @ [48 + n mod 10])"

definition str_nat :: "nat \<Rightarrow> pystr" where
  "str_nat n = digits_fuel n n"

text \<open>
  \<open>ord(s)\<close>: the code point of a one-character string, \<open>TypeError\<close> otherwise.
  \<open>chr(n)\<close>: the one-character string of a code point in \<open>range(0x110000)\<close>,
  \<open>ValueError\<close> otherwise (beyond the C \<open>int\<close> range CPython raises \<open>OverflowError\<close>
  instead; the call is aborted the same way).
\<close>

definition ord_py :: "pystr \<Rightarrow> py_exception + int" where
  "ord_py s =
     (case s of
        [c] \<Rightarrow> Inr (int c)
      | _ \<Rightarrow> Inl (TypeError (py ''ord() expected a character, but string of length ''
                 @ str_nat (length s) @ py '' found'')))"

definition chr_py :: "int \<Rightarrow> py_exception + pystr" where
  "chr_py n =
     (if 0 \<le> n \<and> n < 1114112 then Inr [nat n]
      else Inl (ValueError (py ''chr() arg not in range(0x110000)'')))"

subsection \<open>Configuration constants\<close>

definition NUM_CHOICES :: nat where "NUM_CHOICES = 5"
definition NUM_COLUMNS :: nat where "NUM_COLUMNS = 4"
definition ROW_TOLERANCE :: rat where "ROW_TOLERANCE = 50"
definition COLUMN_TOLERANCE :: rat where "COLUMN_TOLERANCE = 150"

subsection \<open>Candidates, columns and rows\<close>

text \<open>
  A candidate is the tuple \<open>(contour, x, y, w, h)\<close>; \<open>b_x b\<close> is \<open>b[1]\<close>, and so on.
  The contour is a value of the image library; the functions that read it are
  parameters.
\<close>

type_synonym 'c bubble = "'c \<times> int \<times> int \<times> int \<times> int"

definition b_contour :: "'c bubble \<Rightarrow> 'c" where
  "b_contour b = fst b"

definition b_x :: "'c bubble \<Rightarrow> int" where
  "b_x b = fst (snd b)"

definition b_y :: "'c bubble \<Rightarrow> int" where
  "b_y b = fst (snd (snd b))"

definition b_w :: "'c bubble \<Rightarrow> int" where
  "b_w b = fst (snd (snd (snd b)))"

definition b_h :: "'c bubble \<Rightarrow> int" where
  "b_h b = snd (snd (snd (snd b)))"

text \<open>The dictionaries \<open>{"center_x", "bubbles"}\<close> and \<open>{"center_y", "bubbles", "column"}\<close>.\<close>

record 'c col =
  center_x :: rat
  col_bubbles :: "'c bubble list"

record 'c row =
  center_y :: rat
  bubbles :: "'c bubble list"
  column :: nat

text \<open>\<open>np.mean\<close> of a list of integers.\<close>

definition mean :: "int list \<Rightarrow> rat" where
  "mean xs = of_int (sum_list xs) / of_nat (length xs)"

text \<open>
  The slice \<open>xs[:k]\<close>: the first \<open>k\<close> elements, or all but the last \<open>-k\<close> when \<open>k\<close> is
  negative.
\<close>

definition py_slice_to :: "int \<Rightarrow> 'a list \<Rightarrow> 'a list" where
  "py_slice_to k xs = (if 0 \<le> k then take (nat k) xs else take (length xs - nat (- k)) xs)"

text \<open>\<open>sorted(xs, key=f, reverse=True)\<close>: descending, equal keys in their first order.\<close>

definition sorted_reverse :: "('a \<Rightarrow> int) \<Rightarrow> 'a list \<Rightarrow> 'a list" where
  "sorted_reverse f xs = sort_key (\<lambda>x. - f x) xs"

subsection \<open>Grouper: \<^verbatim>\<open>group_bubbles_scanned\<close> and \<^verbatim>\<open>filter_overlapping_bubbles\<close>\<close>

text \<open>
  The inner search loop of both clustering phases: over \<open>enumerate(centers)\<close> from index
  \<open>i\<close>, it keeps the first index whose distance to \<open>c\<close> is below the tolerance and
  below every distance seen before. \<open>best = None\<close> stands for \<open>min_distance = inf\<close>.
\<close>

fun best_match_from ::
  "rat \<Rightarrow> rat \<Rightarrow> nat \<Rightarrow> rat list \<Rightarrow> (nat \<times> rat) option \<Rightarrow> (nat \<times> rat) option" where
  "best_match_from c tol i [] best = best"
| "best_match_from c tol i (ctr # rest) best =
     (let distance = \<bar>c - ctr\<bar>
      in if distance < tol \<and> (case best of None \<Rightarrow> True | Some (k, min_distance) \<Rightarrow> distance < min_distance)
         then best_match_from c tol (Suc i) rest (Some (i, distance))
         else best_match_from c tol (Suc i) rest best)"

definition best_match :: "rat \<Rightarrow> rat \<Rightarrow> rat list \<Rightarrow> nat option" where
  "best_match c tol centers = map_option fst (best_match_from c tol 0 centers None)"

text \<open>Phase 1: one iteration of the loop over \<open>sorted_by_x\<close>.\<close>

definition add_to_columns :: "'c col list \<Rightarrow> 'c bubble \<Rightarrow> 'c col list" where
  "add_to_columns columns bubble =
     (let cx = b_x bubble + b_w bubble div 2
      in case best_match (of_int cx) COLUMN_TOLERANCE (map center_x columns) of
           Some i \<Rightarrow>
             (let bs = col_bubbles (columns ! i) @ [bubble];
                  all_centers = map (\<lambda>b. b_x b + b_w b div 2) bs
              in columns[i := \<lparr> center_x = mean all_centers, col_bubbles = bs \<rparr>])
         | None \<Rightarrow> columns @ [\<lparr> center_x = of_int cx, col_bubbles = [bubble] \<rparr>])"

text \<open>
  Phase 1 as a whole: cluster the candidates sorted by \<open>x\<close>, keep the \<open>NUM_COLUMNS\<close>
  columns with the most bubbles, sort them by \<open>center_x\<close>.
\<close>

definition cluster_columns :: "'c bubble list \<Rightarrow> 'c col list" where
  "cluster_columns bubble_contours = foldl add_to_columns [] (sort_key b_x bubble_contours)"

definition select_columns :: "'c bubble list \<Rightarrow> 'c col list" where
  "select_columns bubble_contours =
     sort_key center_x
       (take NUM_COLUMNS
          (sorted_reverse (\<lambda>c. int (length (col_bubbles c))) (cluster_columns bubble_contours)))"

text \<open>\<open>questions_per_column\<close>: \<open>num_questions // NUM_COLUMNS\<close>, one more when there is a remainder.\<close>

definition questions_per_column :: "int \<Rightarrow> int" where
  "questions_per_column num_questions =
     (if num_questions mod int NUM_COLUMNS \<noteq> 0
      then num_questions div int NUM_COLUMNS + 1
      else num_questions div int NUM_COLUMNS)"

text \<open>
  Phase 2: one iteration of the loop over \<open>sorted_bubbles\<close>. The adaptive tolerance
  divides by \<open>questions_per_column\<close>. It is the exact value here; the code's binary64
  value may differ from it by a rounding (\<open>55.00000000000001\<close> for \<open>55\<close>), which decides
  only a distance that equals the tolerance.
\<close>

definition add_to_rows ::
  "int \<Rightarrow> nat \<Rightarrow> 'c row list \<Rightarrow> 'c bubble \<Rightarrow> py_exception + 'c row list" where
  "add_to_rows qpc col_idx rows bubble =
     (let cy = b_y bubble + b_h bubble div 2
      in if qpc = 0 then Inl (ZeroDivisionError (py ''float division by zero''))
         else
           (let adaptive_tolerance =
                  ROW_TOLERANCE * (1 + (1 / 10) * of_nat (length rows) / of_int qpc)
            in case best_match (of_int cy) adaptive_tolerance (map center_y rows) of
                 Some i \<Rightarrow>
                   (let bs = bubbles (rows ! i) @ [bubble];
                        all_y = map (\<lambda>b. b_y b + b_h b div 2) bs
                    in Inr (rows[i := (rows ! i)\<lparr> bubbles := bs, center_y := mean all_y \<rparr>]))
               | None \<Rightarrow>
                   Inr (rows @ [\<lparr> center_y = of_int cy, bubbles = [bubble], column = col_idx \<rparr>])))"

fun cluster_rows ::
  "int \<Rightarrow> nat \<Rightarrow> 'c row list \<Rightarrow> 'c bubble list \<Rightarrow> py_exception + 'c row list" where
  "cluster_rows qpc col_idx rows [] = Inr rows"
| "cluster_rows qpc col_idx rows (bubble # rest) =
     (case add_to_rows qpc col_idx rows bubble of
        Inl e \<Rightarrow> Inl e
      | Inr rows' \<Rightarrow> cluster_rows qpc col_idx rows' rest)"

text \<open>Phase 3: the row budget of a column, trimming and padding.\<close>

definition current_column_questions :: "int \<Rightarrow> int \<Rightarrow> nat \<Rightarrow> int" where
  "current_column_questions num_questions qpc col_idx =
     (if col_idx = NUM_COLUMNS - 1
      then max 1 (num_questions - int col_idx * qpc)
      else qpc)"

definition trim_rows :: "int \<Rightarrow> 'c row list \<Rightarrow> 'c row list" where
  "trim_rows target rows =
     (if target < int (length rows)
      then sort_key center_y
             (py_slice_to target (sorted_reverse (\<lambda>r. int (length (bubbles r))) rows))
      else rows)"

definition placeholder_row :: "nat \<Rightarrow> 'c row list \<Rightarrow> 'c row" where
  "placeholder_row col_idx rows =
     (let estimated_y =
            (if rows \<noteq> [] then
               (let last_y = center_y (last rows);
                    avg_row_height =
                      (if 1 < length rows
                       then (center_y (last rows) - center_y (hd rows))
                              / of_nat (max 1 (length rows - 1))
                       else 30)
                in last_y + avg_row_height)
             else 100)
      in \<lparr> center_y = estimated_y, bubbles = [], column = col_idx \<rparr>)"

function pad_rows :: "int \<Rightarrow> nat \<Rightarrow> 'c row list \<Rightarrow> 'c row list" where
  "pad_rows target col_idx rows =
     (if int (length rows) < target
      then pad_rows target col_idx (rows @ [placeholder_row col_idx rows])
      else rows)"
  by pat_completeness auto
termination
  by (relation "measure (\<lambda>(target, col_idx, rows). nat (target - int (length rows)))") auto

declare pad_rows.simps [simp del]

text \<open>
  \<open>filter_overlapping_bubbles\<close>. \<open>contourArea\<close> and \<open>arcLength\<close> are the image library's
  measures of a contour; \<open>np_pi\<close> is the double nearest to \<open>\<pi>\<close>. The aspect ratio divides
  by the height. Scores are exact here: two scores that are equal as rationals may differ
  by a rounding in binary64, which decides only the order of such a pair.
\<close>

definition np_pi :: rat where
  "np_pi = 884279719003555 / 281474976710656"

definition bubble_score :: "('c \<Rightarrow> rat) \<Rightarrow> ('c \<Rightarrow> rat) \<Rightarrow> 'c bubble \<Rightarrow> py_exception + rat" where
  "bubble_score contourArea arcLength bubble =
     (let area = contourArea (b_contour bubble);
          perimeter = arcLength (b_contour bubble)
      in if 0 < perimeter then
           (let circularity = 4 * np_pi * area / (perimeter * perimeter)
            in if b_h bubble = 0 then Inl (ZeroDivisionError (py ''float division by zero''))
               else
                 (let aspect_ratio = of_int (b_w bubble) / of_int (b_h bubble)
                  in Inr (circularity * (1 / (\<bar>aspect_ratio - 1\<bar> + 1 / 10)))))
         else Inr 0)"

fun bubbles_with_scores ::
  "('c \<Rightarrow> rat) \<Rightarrow> ('c \<Rightarrow> rat) \<Rightarrow> 'c bubble list \<Rightarrow> py_exception + ('c bubble \<times> rat) list" where
  "bubbles_with_scores contourArea arcLength [] = Inr []"
| "bubbles_with_scores contourArea arcLength (bubble # rest) =
     (case bubble_score contourArea arcLength bubble of
        Inl e \<Rightarrow> Inl e
      | Inr s \<Rightarrow>
          (case bubbles_with_scores contourArea arcLength rest of
             Inl e \<Rightarrow> Inl e
           | Inr scored \<Rightarrow> Inr ((bubble, s) # scored)))"

definition is_overlapping :: "'c bubble \<Rightarrow> 'c bubble \<Rightarrow> bool" where
  "is_overlapping bubble existing_bubble =
     (let overlap_x = max 0 (min (b_x bubble + b_w bubble) (b_x existing_bubble + b_w existing_bubble)
                             - max (b_x bubble) (b_x existing_bubble));
          overlap_y = max 0 (min (b_y bubble + b_h bubble) (b_y existing_bubble + b_h existing_bubble)
                             - max (b_y bubble) (b_y existing_bubble));
          overlap_area = overlap_x * overlap_y
      in (3 / 10) * rat_of_int (min (b_w bubble * b_h bubble) (b_w existing_bubble * b_h existing_bubble))
           < rat_of_int overlap_area)"

fun pick_bubbles :: "'c bubble list \<Rightarrow> 'c bubble list \<Rightarrow> 'c bubble list" where
  "pick_bubbles filtered [] = filtered"
| "pick_bubbles filtered (bubble # rest) =
     (if NUM_CHOICES \<le> length filtered then filtered
      else if list_ex (is_overlapping bubble) filtered then pick_bubbles filtered rest
      else pick_bubbles (filtered @ [bubble]) rest)"

definition filter_overlapping_bubbles ::
  "('c \<Rightarrow> rat) \<Rightarrow> ('c \<Rightarrow> rat) \<Rightarrow> 'c bubble list \<Rightarrow> py_exception + 'c bubble list" where
  "filter_overlapping_bubbles contourArea arcLength bs =
     (if length bs \<le> NUM_CHOICES then Inr bs
      else
        (case bubbles_with_scores contourArea arcLength bs of
           Inl e \<Rightarrow> Inl e
         | Inr scored \<Rightarrow>
             Inr (take NUM_CHOICES
                    (pick_bubbles [] (map fst (sort_key (\<lambda>p. - snd p) scored))))))"

text \<open>Phase 4: one iteration of the loop over the rows of a column.\<close>

definition normalize_row ::
  "('c \<Rightarrow> rat) \<Rightarrow> ('c \<Rightarrow> rat) \<Rightarrow> 'c row \<Rightarrow> py_exception + 'c row" where
  "normalize_row contourArea arcLength r =
     (let sorted_bubbles = sort_key b_x (bubbles r)
      in if length sorted_bubbles \<noteq> NUM_CHOICES \<and> NUM_CHOICES < length sorted_bubbles then
           (case filter_overlapping_bubbles contourArea arcLength sorted_bubbles of
              Inl e \<Rightarrow> Inl e
            | Inr kept \<Rightarrow> Inr (r\<lparr> bubbles := kept \<rparr>))
         else Inr (r\<lparr> bubbles := sorted_bubbles \<rparr>))"

fun normalize_rows ::
  "('c \<Rightarrow> rat) \<Rightarrow> ('c \<Rightarrow> rat) \<Rightarrow> 'c row list \<Rightarrow> py_exception + 'c row list" where
  "normalize_rows contourArea arcLength [] = Inr []"
| "normalize_rows contourArea arcLength (r # rest) =
     (case normalize_row contourArea arcLength r of
        Inl e \<Rightarrow> Inl e
      | Inr r' \<Rightarrow>
          (case normalize_rows contourArea arcLength rest of
             Inl e \<Rightarrow> Inl e
           | Inr rest' \<Rightarrow> Inr (r' # rest')))"

text \<open>The body of the loop over \<open>enumerate(columns)\<close>: the rows of one column.\<close>

definition column_rows ::
  "('c \<Rightarrow> rat) \<Rightarrow> ('c \<Rightarrow> rat) \<Rightarrow> int \<Rightarrow> nat \<Rightarrow> 'c col \<Rightarrow> py_exception + 'c row list" where
  "column_rows contourArea arcLength num_questions col_idx c =
     (let qpc = questions_per_column num_questions
      in case cluster_rows qpc col_idx [] (sort_key b_y (col_bubbles c)) of
           Inl e \<Rightarrow> Inl e
         | Inr clustered \<Rightarrow>
             (let rows = sort_key center_y clustered;
                  target = current_column_questions num_questions qpc col_idx
              in normalize_rows contourArea arcLength
                   (pad_rows target col_idx (trim_rows target rows))))"

fun group_columns ::
  "('c \<Rightarrow> rat) \<Rightarrow> ('c \<Rightarrow> rat) \<Rightarrow> int \<Rightarrow> nat \<Rightarrow> 'c col list \<Rightarrow> 'c row list
     \<Rightarrow> py_exception + 'c row list" where
  "group_columns contourArea arcLength num_questions col_idx [] all_rows = Inr all_rows"
| "group_columns contourArea arcLength num_questions col_idx (c # rest) all_rows =
     (case column_rows contourArea arcLength num_questions col_idx c of
        Inl e \<Rightarrow> Inl e
      | Inr rows \<Rightarrow>
          group_columns contourArea arcLength num_questions (Suc col_idx) rest (all_rows @ rows))"

definition group_bubbles_scanned ::
  "('c \<Rightarrow> rat) \<Rightarrow> ('c \<Rightarrow> rat) \<Rightarrow> 'c bubble list \<Rightarrow> int \<Rightarrow> py_exception + 'c row list" where
  "group_bubbles_scanned contourArea arcLength bubble_contours num_questions =
     (if bubble_contours = [] then Inr []
      else
        (case group_columns contourArea arcLength num_questions 0
                (select_columns bubble_contours) [] of
           Inl e \<Rightarrow> Inl e
         | Inr all_rows \<Rightarrow> Inr (sort_key (\<lambda>r. (column r, center_y r)) all_rows)))"

subsection \<open>Mark resolver: \<^verbatim>\<open>detect_marked_bubbles_scanned\<close>\<close>

datatype bubble_state = BLANK | FILLED | PARTIAL | INVALID

text \<open>
  The states of the first \<open>NUM_CHOICES\<close> bubbles of a row, padded with \<open>BLANK\<close>. The fill
  analysis of one bubble (\<open>analyze_bubble_fill_scanned\<close> on the grayscale image) is the
  parameter \<open>analyze\<close>.
\<close>

definition row_states :: "('c bubble \<Rightarrow> bubble_state \<times> rat) \<Rightarrow> 'c bubble list \<Rightarrow> bubble_state list" where
  "row_states analyze bs =
     (let bubble_states = map (\<lambda>b. fst (analyze b)) (take NUM_CHOICES bs)
      in bubble_states @ replicate (NUM_CHOICES - length bubble_states) BLANK)"

text \<open>\<open>[j for j, state in enumerate(bubble_states) if state == s]\<close>.\<close>

definition indices_of :: "bubble_state \<Rightarrow> bubble_state list \<Rightarrow> nat list" where
  "indices_of s bubble_states = filter (\<lambda>j. bubble_states ! j = s) [0..<length bubble_states]"

definition resolve_states :: "bubble_state list \<Rightarrow> int option" where
  "resolve_states bubble_states =
     (let filled_indices = indices_of FILLED bubble_states;
          partial_indices = indices_of PARTIAL bubble_states
      in if length filled_indices = 1 then Some (int (hd filled_indices))
         else if 1 < length filled_indices then Some (- 2)
         else if length filled_indices = 0 \<and> length partial_indices = 1
              then Some (int (hd partial_indices))
         else if 1 < length partial_indices then Some (- 3)
         else None)"

definition resolve_row :: "('c bubble \<Rightarrow> bubble_state \<times> rat) \<Rightarrow> 'c row \<Rightarrow> int option" where
  "resolve_row analyze r =
     (if length (bubbles r) = 0 then None
      else resolve_states (row_states analyze (bubbles r)))"

definition detect_marked_bubbles_scanned ::
  "('c bubble \<Rightarrow> bubble_state \<times> rat) \<Rightarrow> 'c row list \<Rightarrow> int \<Rightarrow> int option list" where
  "detect_marked_bubbles_scanned analyze rows num_questions =
     (let marked_answers = map (resolve_row analyze) (take (nat num_questions) rows);
          padded = marked_answers @ replicate (nat num_questions - length marked_answers) None
      in py_slice_to num_questions padded)"

subsection \<open>Scorer: \<^verbatim>\<open>score_answers_with_key\<close>\<close>

datatype status = Correct | Wrong | Blank | Multiple | Partial | Invalid

text \<open>One entry of \<open>detailed_responses\<close>.\<close>

record response =
  question :: int
  marked :: "pystr option"
  correct :: pystr
  is_correct :: bool
  status :: status

record processing_metadata =
  confidence :: rat
  bubbles_detected :: bool
  image_quality :: pystr

text \<open>The dictionary the scorer returns.\<close>

record report =
  score :: nat
  total_questions :: int
  attempted :: nat
  correct_answers :: nat
  incorrect_answers :: nat
  blank_answers :: nat
  multiple_marks :: nat
  partial_marks :: nat
  invalid_answers :: nat
  accuracy :: rat
  responses :: "pystr option list"
  detailed_responses :: "response list"
  metadata :: processing_metadata

text \<open>The local variables of the scoring loop.\<close>

record tally =
  t_score :: nat
  t_attempted :: nat
  t_multiple_marks :: nat
  t_partial_marks :: nat
  t_wrong_answers :: nat
  t_blank_answers :: nat
  t_invalid_answers :: nat
  t_detailed :: "response list"

definition tally0 :: tally where
  "tally0 = \<lparr> t_score = 0, t_attempted = 0, t_multiple_marks = 0, t_partial_marks = 0,
              t_wrong_answers = 0, t_blank_answers = 0, t_invalid_answers = 0,
              t_detailed = [] \<rparr>"

text \<open>
  \<open>marked_answers[i] if i < len(marked_answers) else None\<close> and
  \<open>answer_key[i] if i < len(answer_key) else 'A'\<close>.
\<close>

definition marked_at :: "int option list \<Rightarrow> nat \<Rightarrow> int option" where
  "marked_at ms i = (if i < length ms then ms ! i else None)"

definition correct_letter_at :: "pystr list \<Rightarrow> nat \<Rightarrow> pystr" where
  "correct_letter_at answer_key i = (if i < length answer_key then answer_key ! i else py ''A'')"

text \<open>\<open>chr(65 + marked) if marked is not None and marked >= 0 else None\<close>.\<close>

definition marked_letter :: "int option \<Rightarrow> py_exception + pystr option" where
  "marked_letter m =
     (case m of
        None \<Rightarrow> Inr None
      | Some v \<Rightarrow>
          (if 0 \<le> v then
             (case chr_py (65 + v) of Inl e \<Rightarrow> Inl e | Inr s \<Rightarrow> Inr (Some s))
           else Inr None))"

text \<open>The \<open>if\<close>/\<open>elif\<close> chain of the loop body, in the source's order.\<close>

definition tally_step :: "int option \<Rightarrow> int \<Rightarrow> response \<Rightarrow> tally \<Rightarrow> tally" where
  "tally_step m correct_index rd t =
     (if m = Some correct_index then
        t\<lparr> t_score := t_score t + 1, t_attempted := t_attempted t + 1,
           t_detailed := t_detailed t @ [rd\<lparr> is_correct := True, status := Correct \<rparr>] \<rparr>
      else if m = Some (- 2) then
        t\<lparr> t_multiple_marks := t_multiple_marks t + 1, t_attempted := t_attempted t + 1,
           t_invalid_answers := t_invalid_answers t + 1,
           t_detailed := t_detailed t @ [rd\<lparr> status := Multiple \<rparr>] \<rparr>
      else if m = Some (- 3) then
        t\<lparr> t_partial_marks := t_partial_marks t + 1, t_attempted := t_attempted t + 1,
           t_invalid_answers := t_invalid_answers t + 1,
           t_detailed := t_detailed t @ [rd\<lparr> status := Partial \<rparr>] \<rparr>
      else if m = None then
        t\<lparr> t_blank_answers := t_blank_answers t + 1,
           t_detailed := t_detailed t @ [rd\<lparr> status := Blank \<rparr>] \<rparr>
      else if 0 \<le> the m then
        t\<lparr> t_wrong_answers := t_wrong_answers t + 1, t_attempted := t_attempted t + 1,
           t_detailed := t_detailed t @ [rd\<lparr> status := Wrong \<rparr>] \<rparr>
      else
        t\<lparr> t_invalid_answers := t_invalid_answers t + 1, t_attempted := t_attempted t + 1,
           t_detailed := t_detailed t @ [rd\<lparr> status := Invalid \<rparr>] \<rparr>)"

text \<open>One iteration of \<open>for i in range(num_questions)\<close>.\<close>

definition score_question ::
  "int option list \<Rightarrow> pystr list \<Rightarrow> nat \<Rightarrow> tally \<Rightarrow> py_exception + tally" where
  "score_question ms answer_key i t =
     (let m = marked_at ms i;
          correct_letter = correct_letter_at answer_key i
      in case ord_py correct_letter of
           Inl e \<Rightarrow> Inl e
         | Inr oc \<Rightarrow>
             (let correct_index = oc - 65
              in case marked_letter m of
                   Inl e \<Rightarrow> Inl e
                 | Inr ml \<Rightarrow>
                     Inr (tally_step m correct_index
                            \<lparr> question = int i + 1, marked = ml, correct = correct_letter,
                              is_correct = False, status = Blank \<rparr> t)))"

fun score_loop ::
  "int option list \<Rightarrow> pystr list \<Rightarrow> nat list \<Rightarrow> tally \<Rightarrow> py_exception + tally" where
  "score_loop ms answer_key [] t = Inr t"
| "score_loop ms answer_key (i # rest) t =
     (case score_question ms answer_key i t of
        Inl e \<Rightarrow> Inl e
      | Inr t' \<Rightarrow> score_loop ms answer_key rest t')"

text \<open>
  The lines after the loop: accuracy, confidence and the result dictionary. Accuracy and
  confidence are the exact values of the code's expressions, which the code rounds to
  binary64.
\<close>

definition finish_report :: "int \<Rightarrow> tally \<Rightarrow> py_exception + report" where
  "finish_report num_questions t =
     (let acc = (if 0 < t_attempted t
                 then of_nat (t_score t) / of_nat (t_attempted t) * 100 else 0);
          conf = max 50 (min 95 (70 + (acc - 50) * (3 / 10)))
      in if num_questions = 0 then Inl (ZeroDivisionError (py ''division by zero''))
         else
           (let invalid_penalty =
                  of_nat (t_multiple_marks t + t_partial_marks t) / of_int num_questions * 20;
                conf' = max 30 (conf - invalid_penalty)
            in Inr \<lparr> score = t_score t,
                     total_questions = num_questions,
                     attempted = t_attempted t,
                     correct_answers = t_score t,
                     incorrect_answers = t_wrong_answers t,
                     blank_answers = t_blank_answers t,
                     multiple_marks = t_multiple_marks t,
                     partial_marks = t_partial_marks t,
                     invalid_answers = t_invalid_answers t,
                     accuracy = acc,
                     responses = map marked (t_detailed t),
                     detailed_responses = t_detailed t,
                     metadata = \<lparr> confidence = conf', bubbles_detected = True,
                                  image_quality = py ''good'' \<rparr> \<rparr>))"

definition score_answers_with_key ::
  "int option list \<Rightarrow> pystr list \<Rightarrow> int \<Rightarrow> py_exception + report" where
  "score_answers_with_key ms answer_key num_questions =
     (case score_loop ms answer_key [0..<nat num_questions] tally0 of
        Inl e \<Rightarrow> Inl e
      | Inr t \<Rightarrow> finish_report num_questions t)"

subsection \<open>Pipeline: \<^verbatim>\<open>process_omr_image\<close>\<close>

text \<open>
  The image library and the two image stages built from its calls only
  (\<open>preprocess_scanned_image\<close>, \<open>detect_bubbles_scanned\<close>) are the fields of one record of
  parameters. \<open>cv2.imdecode\<close> returns \<open>None\<close> for bytes it cannot decode; every call may also
  raise. The fill analysis and the contour measures return a value.
\<close>

record ('i, 'g, 't, 'c) cv_lib =
  cv_imdecode :: "nat list \<Rightarrow> py_exception + 'i option"
  preprocess_scanned_image :: "'i \<Rightarrow> py_exception + ('g \<times> 't)"
  detect_bubbles_scanned :: "'t \<Rightarrow> 'g \<Rightarrow> py_exception + 'c bubble list"
  analyze_bubble_fill_scanned :: "'g \<Rightarrow> 'c bubble \<Rightarrow> bubble_state \<times> rat"
  cv_contourArea :: "'c \<Rightarrow> rat"
  cv_arcLength :: "'c \<Rightarrow> rat"

text \<open>\<open>s.split(sep)\<close> for a one-character separator, and \<open>s.zfill(width)\<close>.\<close>

fun split_on :: "nat \<Rightarrow> pystr \<Rightarrow> pystr list" where
  "split_on sep [] = [[]]"
| "split_on sep (c # cs) =
     (if c = sep then [] # split_on sep cs
      else (case split_on sep cs of
              [] \<Rightarrow> [[c]]
            | p # ps \<Rightarrow> (c # p) # ps))"

definition zfill :: "nat \<Rightarrow> pystr \<Rightarrow> pystr" where
  "zfill width s =
     (if width \<le> length s then s
      else
        (let fill = replicate (width - length s) 48
         in case s of
              [] \<Rightarrow> fill
            | c # rest \<Rightarrow> if c = 43 \<or> c = 45 then c # fill @ rest else fill @ s))"

text \<open>The result dictionary with the four student keys added.\<close>

record omr_result = report +
  studentId :: pystr
  studentName :: pystr
  rank :: pystr
  lockerNumber :: pystr

definition add_student_fields :: "report \<Rightarrow> pystr \<Rightarrow> py_exception + omr_result" where
  "add_student_fields result student_id =
     (let parts = split_on 95 student_id
      in if length parts \<le> 1 then Inl (IndexError (py ''list index out of range''))
         else Inr (report.extend result
                     (omr_result.fields
                        student_id
                        (py ''Student '' @ parts ! 1)
                        (py ''Cadet'')
                        (py ''L'' @ zfill 3 (parts ! 1)))))"

text \<open>The body of the \<open>try\<close> block.\<close>

definition omr_pipeline ::
  "('i, 'g, 't, 'c) cv_lib \<Rightarrow> nat list \<Rightarrow> pystr list \<Rightarrow> int \<Rightarrow> pystr
     \<Rightarrow> py_exception + omr_result" where
  "omr_pipeline cv image_data answer_key num_questions student_id =
     (case cv_imdecode cv image_data of
        Inl e \<Rightarrow> Inl e
      | Inr None \<Rightarrow> Inl (ValueError (py ''Could not decode image''))
      | Inr (Some img) \<Rightarrow>
          (case preprocess_scanned_image cv img of
             Inl e \<Rightarrow> Inl e
           | Inr (gray, thresh) \<Rightarrow>
               (case detect_bubbles_scanned cv thresh gray of
                  Inl e \<Rightarrow> Inl e
                | Inr bubble_contours \<Rightarrow>
                    if bubble_contours = [] then
                      Inl (ValueError
                        (py ''No bubble contours detected. Check image quality and parameters.''))
                    else
                      (case group_bubbles_scanned (cv_contourArea cv) (cv_arcLength cv)
                              bubble_contours num_questions of
                         Inl e \<Rightarrow> Inl e
                       | Inr rows \<Rightarrow>
                           if length rows = 0 then
                             Inl (ValueError
                               (py ''No structured rows detected. Check bubble grouping parameters.''))
                           else
                             (let marked_answers =
                                    detect_marked_bubbles_scanned
                                      (analyze_bubble_fill_scanned cv gray) rows num_questions
                              in case score_answers_with_key marked_answers answer_key
                                        num_questions of
                                   Inl e \<Rightarrow> Inl e
                                 | Inr result \<Rightarrow> add_student_fields result student_id)))))"

text \<open>\<open>except Exception as e: raise ValueError(f"Failed to process OMR image: {str(e)}")\<close>.\<close>

definition process_omr_image ::
  "('i, 'g, 't, 'c) cv_lib \<Rightarrow> nat list \<Rightarrow> pystr list \<Rightarrow> int \<Rightarrow> pystr
     \<Rightarrow> py_exception + omr_result" where
  "process_omr_image cv image_data answer_key num_questions student_id =
     (case omr_pipeline cv image_data answer_key num_questions student_id of
        Inl e \<Rightarrow> Inl (ValueError (py ''Failed to process OMR image: '' @ str_exn e))
      | Inr result \<Rightarrow> Inr result)"

section \<open>Auxiliary definitions for the statements\<close>

subsection \<open>Grouper\<close>

text \<open>The candidates held by a list of rows, and by a list of columns.\<close>

definition row_bubbles :: "'c row list \<Rightarrow> 'c bubble set" where
  "row_bubbles rows = (\<Union>r\<in>set rows. set (bubbles r))"

definition column_bubbles :: "'c col list \<Rightarrow> 'c bubble set" where
  "column_bubbles cols = (\<Union>c\<in>set cols. set (col_bubbles c))"

text \<open>
  The number of rows the budgets of the first \<open>k\<close> columns add up to: every column but
  the last of \<open>NUM_COLUMNS\<close> gets \<open>questions_per_column\<close> rows, the last one
  \<open>max(1, num_questions - (NUM_COLUMNS - 1) * questions_per_column)\<close>.
\<close>

definition rows_budget :: "int \<Rightarrow> nat \<Rightarrow> int" where
  "rows_budget n k =
     (if k = NUM_COLUMNS
      then int (NUM_COLUMNS - 1) * questions_per_column n
           + max 1 (n - int (NUM_COLUMNS - 1) * questions_per_column n)
      else int k * questions_per_column n)"

text \<open>Ascending by column index, then by \<open>center_y\<close>.\<close>

definition row_order :: "'c row \<Rightarrow> 'c row \<Rightarrow> bool" where
  "row_order r s \<longleftrightarrow> column r < column s \<or> (column r = column s \<and> center_y r \<le> center_y s)"

text \<open>
  Concrete candidate lists. A contour is given by its area and perimeter, which
  \<open>contourArea\<close> and \<open>arcLength\<close> read off: one candidate; four candidates 300 pixels
  apart (four columns); six candidates on one line, 30 pixels apart (one row of one
  column), the first and the last less square than the others.
\<close>

definition one_candidate :: "(rat \<times> rat) bubble list" where
  "one_candidate = [((100, 36), 100, 500, 12, 12)]"

definition four_candidates :: "(rat \<times> rat) bubble list" where
  "four_candidates =
     [((100, 36), 100, 500, 12, 12), ((100, 36), 400, 500, 12, 12),
      ((100, 36), 700, 500, 12, 12), ((100, 36), 1000, 500, 12, 12)]"

definition six_in_a_row :: "(rat \<times> rat) bubble list" where
  "six_in_a_row =
     [((100, 36), 100, 500, 12, 10),
      ((100, 36), 130, 500, 12, 12),
      ((100, 36), 160, 500, 12, 12),
      ((100, 36), 190, 500, 12, 12),
      ((100, 36), 220, 500, 12, 12),
      ((100, 36), 250, 500, 18, 12)]"

subsection \<open>Mark resolver\<close>

text \<open>
  The per-bubble state list of a row as the specification describes it: position \<open>j\<close>
  below \<open>NUM_CHOICES\<close> holds the state of the row's bubble \<open>j\<close>, or \<open>BLANK\<close> where the
  row has no such bubble.
\<close>

definition padded_states ::
  "('c bubble \<Rightarrow> bubble_state \<times> rat) \<Rightarrow> 'c bubble list \<Rightarrow> bubble_state list" where
  "padded_states analyze bs =
     map (\<lambda>j. if j < length bs then fst (analyze (bs ! j)) else BLANK) [0..<NUM_CHOICES]"

text \<open>A fill analysis that finds the bubble at \<open>x = 130\<close> filled, and a row of three bubbles.\<close>

definition example_analyze :: "(rat \<times> rat) bubble \<Rightarrow> bubble_state \<times> rat" where
  "example_analyze b = (if b_x b = 130 then (FILLED, 9 / 10) else (BLANK, 1 / 10))"

definition example_row :: "(rat \<times> rat) row" where
  "example_row =
     \<lparr> center_y = 506,
       bubbles = [((100, 36), 100, 500, 12, 12), ((100, 36), 130, 500, 12, 12),
                  ((100, 36), 160, 500, 12, 12)],
       column = 0 \<rparr>"

subsection \<open>Scorer\<close>

text \<open>The status the \<open>if\<close>/\<open>elif\<close> chain of the scoring loop assigns to one mark.\<close>

definition step_status :: "int option \<Rightarrow> int \<Rightarrow> status" where
  "step_status m ci =
     (if m = Some ci then Correct
      else if m = Some (- 2) then Multiple
      else if m = Some (- 3) then Partial
      else if m = None then Blank
      else if 0 \<le> the m then Wrong
      else Invalid)"

text \<open>The number of entries of \<open>detailed_responses\<close> with a given status.\<close>

definition count_status :: "status \<Rightarrow> response list \<Rightarrow> nat" where
  "count_status s ds = length (filter (\<lambda>d. status d = s) ds)"

text \<open>
  The values the mark resolver produces: \<open>None\<close>, \<open>-2\<close>, \<open>-3\<close> or a choice index below
  \<open>NUM_CHOICES\<close>.
\<close>

definition valid_mark :: "int option \<Rightarrow> bool" where
  "valid_mark m =
     (case m of
        None \<Rightarrow> True
      | Some v \<Rightarrow> v = - 2 \<or> v = - 3 \<or> (0 \<le> v \<and> v < int NUM_CHOICES))"

text \<open>The loop invariant of the scoring loop: every counter counts its status.\<close>

definition tally_inv :: "tally \<Rightarrow> bool" where
  "tally_inv t \<longleftrightarrow>
     t_score t = count_status Correct (t_detailed t) \<and>
     t_wrong_answers t = count_status Wrong (t_detailed t) \<and>
     t_blank_answers t = count_status Blank (t_detailed t) \<and>
     t_multiple_marks t = count_status Multiple (t_detailed t) \<and>
     t_partial_marks t = count_status Partial (t_detailed t) \<and>
     t_invalid_answers t =
       count_status Multiple (t_detailed t) + count_status Partial (t_detailed t)
       + count_status Invalid (t_detailed t) \<and>
     t_attempted t + t_blank_answers t = length (t_detailed t)"

text \<open>The \<open>marked\<close> letter of a mark, where \<open>chr\<close> does not fail.\<close>

definition mark_letter_value :: "int option \<Rightarrow> pystr option" where
  "mark_letter_value m =
     (case m of None \<Rightarrow> None | Some v \<Rightarrow> if 0 \<le> v then Some [nat (65 + v)] else None)"

text \<open>The entry of question \<open>i\<close> in \<open>detailed_responses\<close> after a successful run.\<close>

definition letter_index :: "pystr \<Rightarrow> int" where
  "letter_index s = (case ord_py s of Inl e \<Rightarrow> 0 | Inr oc \<Rightarrow> oc - 65)"

definition scored_entry :: "int option list \<Rightarrow> pystr list \<Rightarrow> nat \<Rightarrow> response" where
  "scored_entry ms answer_key i =
     \<lparr> question = int i + 1,
       marked = mark_letter_value (marked_at ms i),
       correct = correct_letter_at answer_key i,
       is_correct = (marked_at ms i = Some (letter_index (correct_letter_at answer_key i))),
       status = step_status (marked_at ms i) (letter_index (correct_letter_at answer_key i)) \<rparr>"

text \<open>A mark whose letter \<open>chr(65 + marked)\<close> exists.\<close>

definition chr_safe :: "int option \<Rightarrow> bool" where
  "chr_safe m = (case m of None \<Rightarrow> True | Some v \<Rightarrow> v < 1114047)"

text \<open>The result dictionary, written out from the loop's variables.\<close>

definition report_of_tally :: "int \<Rightarrow> tally \<Rightarrow> report" where
  "report_of_tally n t =
     \<lparr> score = t_score t,
       total_questions = n,
       attempted = t_attempted t,
       correct_answers = t_score t,
       incorrect_answers = t_wrong_answers t,
       blank_answers = t_blank_answers t,
       multiple_marks = t_multiple_marks t,
       partial_marks = t_partial_marks t,
       invalid_answers = t_invalid_answers t,
       accuracy = (if 0 < t_attempted t
                   then of_nat (t_score t) / of_nat (t_attempted t) * 100 else 0),
       responses = map marked (t_detailed t),
       detailed_responses = t_detailed t,
       metadata =
         \<lparr> confidence =
             max 30 (max 50 (min 95 (70 + ((if 0 < t_attempted t
                   then of_nat (t_score t) / of_nat (t_attempted t) * 100 else 0) - 50) * (3 / 10)))
                     - of_nat (t_multiple_marks t + t_partial_marks t) / of_int n * 20),
           bubbles_detected = True, image_quality = py ''good'' \<rparr> \<rparr>"

text \<open>
  The specification's \<open>clamp(v, lo, hi)\<close>: \<open>v\<close> bounded to the interval \<open>[lo, hi]\<close>.
\<close>

definition clamp :: "rat \<Rightarrow> rat \<Rightarrow> rat \<Rightarrow> rat" where
  "clamp v lo hi = (if v < lo then lo else if hi < v then hi else v)"

text \<open>
  Seed scenario 1: twenty questions, the key \<open>A..E\<close> four times, every question marked
  with its key's index.
\<close>

definition seed1_key :: "pystr list" where
  "seed1_key = concat (replicate 4 [py ''A'', py ''B'', py ''C'', py ''D'', py ''E''])"

definition seed1_marks :: "int option list" where
  "seed1_marks = concat (replicate 4 [Some 0, Some 1, Some 2, Some 3, Some 4])"

subsection \<open>Pipeline\<close>

text \<open>
  Two image libraries for concrete runs: one that decodes nothing, one that finds a
  single filled bubble.
\<close>

definition cv_undecodable :: "(unit, unit, unit, rat \<times> rat) cv_lib" where
  "cv_undecodable =
     \<lparr> cv_imdecode = (\<lambda>d. Inr None),
       preprocess_scanned_image = (\<lambda>i. Inr ((), ())),
       detect_bubbles_scanned = (\<lambda>t g. Inr []),
       analyze_bubble_fill_scanned = (\<lambda>g b. (BLANK, 0)),
       cv_contourArea = fst,
       cv_arcLength = snd \<rparr>"

definition cv_one_bubble :: "(unit, unit, unit, rat \<times> rat) cv_lib" where
  "cv_one_bubble =
     \<lparr> cv_imdecode = (\<lambda>d. Inr (Some ())),
       preprocess_scanned_image = (\<lambda>i. Inr ((), ())),
       detect_bubbles_scanned = (\<lambda>t g. Inr [((100, 36), 100, 500, 12, 12)]),
       analyze_bubble_fill_scanned = (\<lambda>g b. (FILLED, 9 / 10)),
       cv_contourArea = fst,
       cv_arcLength = snd \<rparr>"

section \<open>Properties of the grouper\<close>

text \<open>The index the search loop returns is an index of the list searched.\<close>

lemma best_match_from_bound:
  "best_match_from c tol i centers best = Some (k, d) \<Longrightarrow>
   (\<And>k' d'. best = Some (k', d') \<Longrightarrow> k' < i) \<Longrightarrow> k < i + length centers"
proof (induction centers arbitrary: i best)
  case Nil
  then show ?case by simp
next
  case (Cons ctr rest)
  show ?case
  proof (cases "\<bar>c - ctr\<bar> < tol \<and> (case best of None \<Rightarrow> True | Some (k, md) \<Rightarrow> \<bar>c - ctr\<bar> < md)")
    case True
    with Cons.prems(1) have "best_match_from c tol (Suc i) rest (Some (i, \<bar>c - ctr\<bar>)) = Some (k, d)"
      by (simp add: Let_def)
    from Cons.IH[OF this] show ?thesis by simp
  next
    case False
    with Cons.prems(1) have "best_match_from c tol (Suc i) rest best = Some (k, d)"
      by (simp add: Let_def)
    from Cons.IH[OF this] Cons.prems(2) show ?thesis
      by (simp add: less_Suc_eq)
  qed
qed

lemma best_match_lt: "best_match c tol centers = Some i \<Longrightarrow> i < length centers"
proof -
  assume "best_match c tol centers = Some i"
  then obtain d where "best_match_from c tol 0 centers None = Some (i, d)"
    by (auto simp: best_match_def)
  from best_match_from_bound[OF this] show ?thesis by simp
qed

text \<open>Phase 1.\<close>

lemma add_to_columns_nonempty: "add_to_columns cols b \<noteq> []"
proof (cases "best_match (of_int (b_x b + b_w b div 2)) COLUMN_TOLERANCE (map center_x cols)")
  case None
  then show ?thesis by (simp add: add_to_columns_def)
next
  case (Some i)
  from best_match_lt[OF this] have "cols \<noteq> []" by auto
  with Some show ?thesis by (simp add: add_to_columns_def Let_def)
qed

lemma add_to_columns_bubbles:
  "column_bubbles (add_to_columns cols b) \<subseteq> insert b (column_bubbles cols)"
proof (cases "best_match (of_int (b_x b + b_w b div 2)) COLUMN_TOLERANCE (map center_x cols)")
  case None
  then show ?thesis by (auto simp: add_to_columns_def column_bubbles_def)
next
  case (Some i)
  from best_match_lt[OF this] have i: "i < length cols" by simp
  have "set (cols[i := x]) \<subseteq> insert x (set cols)" for x
    by (rule set_update_subset_insert)
  then show ?thesis
    using Some i by (fastforce simp: add_to_columns_def column_bubbles_def Let_def)
qed

lemma foldl_add_to_columns_nonempty:
  "cols \<noteq> [] \<or> bs \<noteq> [] \<Longrightarrow> foldl add_to_columns cols bs \<noteq> []"
  by (induction bs arbitrary: cols) (simp_all add: add_to_columns_nonempty)

lemma foldl_add_to_columns_bubbles:
  "column_bubbles (foldl add_to_columns cols bs) \<subseteq> column_bubbles cols \<union> set bs"
proof (induction bs arbitrary: cols)
  case Nil
  then show ?case by simp
next
  case (Cons b bs)
  from Cons.IH[of "add_to_columns cols b"] add_to_columns_bubbles[of cols b]
  show ?case by auto
qed

lemma cluster_columns_nonempty: "bs \<noteq> [] \<Longrightarrow> cluster_columns bs \<noteq> []"
proof -
  assume "bs \<noteq> []"
  then have "sort_key b_x bs \<noteq> []"
    by (metis length_sort length_0_conv)
  then show ?thesis
    unfolding cluster_columns_def by (simp add: foldl_add_to_columns_nonempty)
qed

lemma cluster_columns_bubbles: "column_bubbles (cluster_columns bs) \<subseteq> set bs"
  using foldl_add_to_columns_bubbles[of "[]" "sort_key b_x bs"]
  by (simp add: cluster_columns_def column_bubbles_def)

lemma select_columns_length:
  "bs \<noteq> [] \<Longrightarrow> 1 \<le> length (select_columns bs) \<and> length (select_columns bs) \<le> NUM_COLUMNS"
proof -
  assume "bs \<noteq> []"
  from cluster_columns_nonempty[OF this] have "Suc 0 \<le> length (cluster_columns bs)"
    by (cases "cluster_columns bs") simp_all
  then show ?thesis
    by (simp add: select_columns_def sorted_reverse_def NUM_COLUMNS_def)
qed

lemma select_columns_bubbles: "column_bubbles (select_columns bs) \<subseteq> set bs"
proof -
  have "set (select_columns bs) \<subseteq> set (cluster_columns bs)"
    by (auto simp: select_columns_def sorted_reverse_def dest: in_set_takeD)
  then have "column_bubbles (select_columns bs) \<subseteq> column_bubbles (cluster_columns bs)"
    by (auto simp: column_bubbles_def)
  with cluster_columns_bubbles[of bs] show ?thesis by blast
qed

text \<open>Phase 2.\<close>

lemma add_to_rows_returns:
  assumes "qpc \<noteq> 0"
  shows "\<exists>rows'. add_to_rows qpc col_idx rows b = Inr rows' \<and>
           row_bubbles rows' \<subseteq> insert b (row_bubbles rows)"
proof (cases "best_match (of_int (b_y b + b_h b div 2))
                (ROW_TOLERANCE * (1 + (1 / 10) * of_nat (length rows) / of_int qpc))
                (map center_y rows)")
  case None
  then show ?thesis
    using assms by (auto simp: add_to_rows_def row_bubbles_def)
next
  case (Some i)
  from best_match_lt[OF this] have i: "i < length rows" by simp
  have "set (rows[i := x]) \<subseteq> insert x (set rows)" for x
    by (rule set_update_subset_insert)
  then show ?thesis
    using Some i assms by (fastforce simp: add_to_rows_def row_bubbles_def Let_def)
qed

lemma cluster_rows_returns:
  assumes "qpc \<noteq> 0"
  shows "\<exists>rows'. cluster_rows qpc col_idx rows bs = Inr rows' \<and>
           row_bubbles rows' \<subseteq> row_bubbles rows \<union> set bs"
proof (induction bs arbitrary: rows)
  case Nil
  then show ?case by simp
next
  case (Cons b bs)
  from add_to_rows_returns[OF assms, of col_idx rows b] obtain rows1 where
    a: "add_to_rows qpc col_idx rows b = Inr rows1" and
    s: "row_bubbles rows1 \<subseteq> insert b (row_bubbles rows)" by blast
  from Cons.IH[of rows1] obtain rows' where
    c: "cluster_rows qpc col_idx rows1 bs = Inr rows'" and
    s': "row_bubbles rows' \<subseteq> row_bubbles rows1 \<union> set bs" by blast
  from a c s s' show ?case by auto
qed

text \<open>Phase 3.\<close>

lemma trim_rows_length_le:
  assumes "0 \<le> target"
  shows "length (trim_rows target rows) = min (length rows) (nat target)"
  using assms by (auto simp: trim_rows_def py_slice_to_def sorted_reverse_def)

lemma trim_rows_bubbles: "row_bubbles (trim_rows target rows) \<subseteq> row_bubbles rows"
proof -
  have "set (trim_rows target rows) \<subseteq> set rows"
    by (auto simp: trim_rows_def py_slice_to_def sorted_reverse_def dest: in_set_takeD)
  then show ?thesis by (auto simp: row_bubbles_def)
qed

lemma pad_rows_length:
  "length (pad_rows target col_idx rows) = max (length rows) (nat target)"
proof (induction target col_idx rows rule: pad_rows.induct)
  case (1 target col_idx rows)
  show ?case
  proof (cases "int (length rows) < target")
    case True
    with 1 show ?thesis
      by (subst pad_rows.simps) auto
  next
    case False
    then show ?thesis
      by (subst pad_rows.simps) auto
  qed
qed

lemma pad_rows_bubbles:
  "row_bubbles (pad_rows target col_idx rows) = row_bubbles rows"
proof (induction target col_idx rows rule: pad_rows.induct)
  case (1 target col_idx rows)
  show ?case
  proof (cases "int (length rows) < target")
    case True
    with 1 show ?thesis
      by (subst pad_rows.simps) (simp add: row_bubbles_def placeholder_row_def Let_def)
  next
    case False
    then show ?thesis
      by (subst pad_rows.simps) auto
  qed
qed

text \<open>Phase 4.\<close>

lemma bubble_score_returns:
  "b_h b \<noteq> 0 \<Longrightarrow> \<exists>s. bubble_score contourArea arcLength b = Inr s"
  by (simp add: bubble_score_def Let_def)

lemma bubbles_with_scores_returns:
  "\<forall>b\<in>set bs. b_h b \<noteq> 0 \<Longrightarrow> \<exists>scored. bubbles_with_scores contourArea arcLength bs = Inr scored"
proof (induction bs)
  case Nil
  then show ?case by simp
next
  case (Cons b bs)
  then obtain s scored where "bubble_score contourArea arcLength b = Inr s"
    and "bubbles_with_scores contourArea arcLength bs = Inr scored"
    using bubble_score_returns[of b contourArea arcLength] by auto
  then show ?case by simp
qed

lemma filter_overlapping_bubbles_returns:
  "\<forall>b\<in>set bs. b_h b \<noteq> 0 \<Longrightarrow> \<exists>kept. filter_overlapping_bubbles contourArea arcLength bs = Inr kept"
  using bubbles_with_scores_returns[of bs contourArea arcLength]
  by (auto simp: filter_overlapping_bubbles_def)

lemma normalize_row_returns:
  assumes "\<forall>b\<in>set (bubbles r). b_h b \<noteq> 0"
  shows "\<exists>r'. normalize_row contourArea arcLength r = Inr r'"
proof -
  from assms have "\<forall>b\<in>set (sort_key b_x (bubbles r)). b_h b \<noteq> 0" by simp
  from filter_overlapping_bubbles_returns[OF this, of contourArea arcLength]
  show ?thesis
    by (auto simp: normalize_row_def Let_def)
qed

lemma normalize_rows_returns:
  "\<forall>b\<in>row_bubbles rows. b_h b \<noteq> 0 \<Longrightarrow>
   \<exists>rows'. normalize_rows contourArea arcLength rows = Inr rows' \<and> length rows' = length rows"
proof (induction rows)
  case Nil
  then show ?case by simp
next
  case (Cons r rows)
  from Cons.prems have "\<forall>b\<in>set (bubbles r). b_h b \<noteq> 0"
    and rest: "\<forall>b\<in>row_bubbles rows. b_h b \<noteq> 0"
    by (simp_all add: row_bubbles_def)
  from normalize_row_returns[OF this(1), of contourArea arcLength] obtain r' where
    "normalize_row contourArea arcLength r = Inr r'" by blast
  moreover from Cons.IH[OF rest] obtain rows' where
    "normalize_rows contourArea arcLength rows = Inr rows'" "length rows' = length rows" by blast
  ultimately show ?case by simp
qed

text \<open>One column, then all columns.\<close>

lemma questions_per_column_pos: "1 \<le> n \<Longrightarrow> 1 \<le> questions_per_column n"
  unfolding questions_per_column_def NUM_COLUMNS_def by (simp split: if_splits) presburger

lemma current_column_questions_pos:
  "1 \<le> qpc \<Longrightarrow> 1 \<le> current_column_questions n qpc col_idx"
  by (simp add: current_column_questions_def)

lemma column_rows_returns:
  assumes "1 \<le> n" and "\<forall>b\<in>set (col_bubbles c). b_h b \<noteq> 0"
  shows "\<exists>rows. column_rows contourArea arcLength n col_idx c = Inr rows \<and>
           length rows = nat (current_column_questions n (questions_per_column n) col_idx)"
proof -
  let ?qpc = "questions_per_column n"
  let ?target = "current_column_questions n ?qpc col_idx"
  from questions_per_column_pos[OF assms(1)] have q: "1 \<le> ?qpc" .
  from current_column_questions_pos[OF q] have t: "1 \<le> ?target" .
  from q have "?qpc \<noteq> 0" by simp
  from cluster_rows_returns[OF this, of col_idx "[]" "sort_key b_y (col_bubbles c)"]
  obtain clustered where
    c: "cluster_rows ?qpc col_idx [] (sort_key b_y (col_bubbles c)) = Inr clustered" and
    s: "row_bubbles clustered \<subseteq> set (col_bubbles c)"
    by (auto simp: row_bubbles_def)
  let ?rows = "pad_rows ?target col_idx (trim_rows ?target (sort_key center_y clustered))"
  have "row_bubbles (sort_key center_y clustered) = row_bubbles clustered"
    by (simp add: row_bubbles_def)
  with trim_rows_bubbles[of ?target "sort_key center_y clustered"] s
  have "row_bubbles ?rows \<subseteq> set (col_bubbles c)"
    by (simp add: pad_rows_bubbles)
  with assms(2) have h: "\<forall>b\<in>row_bubbles ?rows. b_h b \<noteq> 0" by blast
  from normalize_rows_returns[OF h, of contourArea arcLength] obtain rows' where
    n: "normalize_rows contourArea arcLength ?rows = Inr rows'" and
    l: "length rows' = length ?rows" by blast
  have "length ?rows = nat ?target"
    using t by (simp add: pad_rows_length trim_rows_length_le)
  with c n l show ?thesis
    by (simp add: column_rows_def Let_def)
qed

lemma group_columns_returns:
  assumes "1 \<le> n" and "\<forall>b\<in>column_bubbles cols. b_h b \<noteq> 0"
  shows "\<exists>rows. group_columns contourArea arcLength n col_idx cols all_rows = Inr rows \<and>
           length rows = length all_rows +
             (\<Sum>j<length cols. nat (current_column_questions n (questions_per_column n) (col_idx + j)))"
  using assms(2)
proof (induction cols arbitrary: col_idx all_rows)
  case Nil
  then show ?case by simp
next
  case (Cons c cols)
  from Cons.prems have hc: "\<forall>b\<in>set (col_bubbles c). b_h b \<noteq> 0"
    and hr: "\<forall>b\<in>column_bubbles cols. b_h b \<noteq> 0"
    by (simp_all add: column_bubbles_def)
  from column_rows_returns[OF assms(1) hc, of contourArea arcLength col_idx] obtain rows1 where
    c1: "column_rows contourArea arcLength n col_idx c = Inr rows1" and
    l1: "length rows1 = nat (current_column_questions n (questions_per_column n) col_idx)"
    by blast
  from Cons.IH[OF hr, of "Suc col_idx" "all_rows @ rows1"] obtain rows where
    g: "group_columns contourArea arcLength n (Suc col_idx) cols (all_rows @ rows1) = Inr rows" and
    l: "length rows = length (all_rows @ rows1) +
          (\<Sum>j<length cols. nat (current_column_questions n (questions_per_column n) (Suc col_idx + j)))"
    by blast
  define f where "f j = nat (current_column_questions n (questions_per_column n) (col_idx + j))" for j
  have "(\<Sum>j<Suc (length cols). f j) = f 0 + (\<Sum>j<length cols. f (Suc j))"
    by (rule sum.lessThan_Suc_shift)
  then have "(\<Sum>j<length (c # cols). nat (current_column_questions n (questions_per_column n) (col_idx + j)))
        = nat (current_column_questions n (questions_per_column n) col_idx)
          + (\<Sum>j<length cols. nat (current_column_questions n (questions_per_column n) (Suc col_idx + j)))"
    by (simp only: f_def list.size length_Cons add_0_right add_Suc_right add_Suc)
  with c1 l1 g l show ?case by simp
qed

lemma current_column_questions_inner:
  "j < NUM_COLUMNS - 1 \<Longrightarrow> current_column_questions n q j = q"
  by (simp add: current_column_questions_def)

lemma current_column_questions_last:
  "current_column_questions n q (NUM_COLUMNS - 1) = max 1 (n - int (NUM_COLUMNS - 1) * q)"
  by (simp add: current_column_questions_def)

lemma sum_inner_budgets:
  assumes "k \<le> NUM_COLUMNS - 1"
  shows "(\<Sum>j<k. nat (current_column_questions n q j)) = k * nat q"
proof -
  have "(\<Sum>j<k. nat (current_column_questions n q j)) = (\<Sum>j<k. nat q)"
    using assms by (intro sum.cong refl) (simp add: current_column_questions_inner)
  then show ?thesis by simp
qed

lemma sum_budgets:
  assumes "1 \<le> n" and "k \<le> NUM_COLUMNS"
  shows "int (\<Sum>j<k. nat (current_column_questions n (questions_per_column n) j)) = rows_budget n k"
proof (cases "k = NUM_COLUMNS")
  case True
  let ?q = "questions_per_column n"
  from questions_per_column_pos[OF assms(1)] have q: "1 \<le> ?q" .
  have k: "k = Suc (NUM_COLUMNS - 1)"
    using True by (simp add: NUM_COLUMNS_def)
  have "(\<Sum>j<Suc (NUM_COLUMNS - 1). nat (current_column_questions n ?q j))
          = (NUM_COLUMNS - 1) * nat ?q + nat (max 1 (n - int (NUM_COLUMNS - 1) * ?q))"
    by (simp only: sum.lessThan_Suc sum_inner_budgets[OF order_refl] current_column_questions_last)
  moreover have "int ((NUM_COLUMNS - 1) * nat ?q + nat (max 1 (n - int (NUM_COLUMNS - 1) * ?q)))
          = int (NUM_COLUMNS - 1) * ?q + max 1 (n - int (NUM_COLUMNS - 1) * ?q)"
    using q by (simp add: max_def)
  ultimately have "int (\<Sum>j<k. nat (current_column_questions n ?q j))
          = int (NUM_COLUMNS - 1) * ?q + max 1 (n - int (NUM_COLUMNS - 1) * ?q)"
    unfolding k by (simp only:)
  then show ?thesis
    using True by (simp add: rows_budget_def)
next
  case False
  with assms(2) have "k \<le> NUM_COLUMNS - 1" by simp
  from sum_inner_budgets[OF this] questions_per_column_pos[OF assms(1)] False
  show ?thesis by (simp add: rows_budget_def)
qed

lemma sorted_rows:
  "sorted_wrt row_order (sort_key (\<lambda>r. (column r, center_y r)) rows)"
proof -
  have "sorted (map (\<lambda>r. (column r, center_y r)) (sort_key (\<lambda>r. (column r, center_y r)) rows))"
    by (rule sorted_sort_key)
  moreover have "(\<lambda>r s. (column r, center_y r) \<le> (column s, center_y s)) = (row_order :: 'a row \<Rightarrow> 'a row \<Rightarrow> bool)"
    by (auto simp: fun_eq_iff row_order_def less_eq_prod_def)
  ultimately show ?thesis
    by (simp add: sorted_map)
qed

lemma rows_budget_exact:
  "k = NUM_COLUMNS \<Longrightarrow> int (NUM_COLUMNS - 1) * questions_per_column n < n \<Longrightarrow> rows_budget n k = n"
  by (simp add: rows_budget_def)

text \<open>
  Claim C1, as stated: for a non-empty candidate list and \<open>num_questions \<ge> 1\<close> the grouper
  returns exactly \<open>num_questions\<close> rows. One candidate and two questions give one row:
  phase 1 finds one column, whose budget is \<open>questions_per_column = 1\<close>.
\<close>

theorem grouper_not_num_questions_rows:
  "\<not> (case group_bubbles_scanned fst snd one_candidate 2 of
         Inl e \<Rightarrow> False
       | Inr rows \<Rightarrow> length rows = 2)"
  by code_simp

text \<open>
  Claim C1, amended: for a non-empty candidate list (of candidates with a height other
  than 0) and \<open>num_questions \<ge> 1\<close>, the grouper returns a row list ordered by column
  index, then by \<open>center_y\<close>. Phase 1 keeps between 1 and \<open>NUM_COLUMNS\<close> columns, and
  the list has one row per unit of budget of the columns kept: \<open>questions_per_column\<close>
  for each column but the fourth, \<open>max(1, num_questions - 3 * questions_per_column)\<close> for
  the fourth. That is \<open>num_questions\<close> rows when four columns are kept and
  \<open>3 * questions_per_column < num_questions\<close>.
\<close>

theorem grouper_rows:
  assumes "bubble_contours \<noteq> []" and "1 \<le> num_questions"
    and "\<forall>b\<in>set bubble_contours. b_h b \<noteq> 0"
  shows "\<exists>rows. group_bubbles_scanned contourArea arcLength bubble_contours num_questions = Inr rows \<and>
           1 \<le> length (select_columns bubble_contours) \<and>
           length (select_columns bubble_contours) \<le> NUM_COLUMNS \<and>
           int (length rows) = rows_budget num_questions (length (select_columns bubble_contours)) \<and>
           (length (select_columns bubble_contours) = NUM_COLUMNS \<and>
            int (NUM_COLUMNS - 1) * questions_per_column num_questions < num_questions
              \<longrightarrow> int (length rows) = num_questions) \<and>
           sorted_wrt row_order rows"
proof -
  let ?cols = "select_columns bubble_contours"
  from select_columns_bubbles[of bubble_contours] assms(3)
  have h: "\<forall>b\<in>column_bubbles ?cols. b_h b \<noteq> 0" by blast
  from group_columns_returns[OF assms(2) h, of contourArea arcLength 0 "[]"] obtain all_rows where
    g: "group_columns contourArea arcLength num_questions 0 ?cols [] = Inr all_rows" and
    l: "length all_rows =
          (\<Sum>j<length ?cols. nat (current_column_questions num_questions
                                    (questions_per_column num_questions) j))"
    by auto
  note k = select_columns_length[OF assms(1)]
  from sum_budgets[OF assms(2), of "length ?cols"] k l
  have b: "int (length all_rows) = rows_budget num_questions (length ?cols)" by simp
  have r: "group_bubbles_scanned contourArea arcLength bubble_contours num_questions
             = Inr (sort_key (\<lambda>r. (column r, center_y r)) all_rows)"
    using assms(1) g by (simp add: group_bubbles_scanned_def)
  show ?thesis
    using k b rows_budget_exact[of "length ?cols" num_questions] sorted_rows[of all_rows]
    unfolding r by simp
qed

theorem grouper_rows_witness:
  "four_candidates \<noteq> [] \<and> (1::int) \<le> 5 \<and> list_all (\<lambda>b. b_h b \<noteq> 0) four_candidates \<and>
   (case group_bubbles_scanned fst snd four_candidates 5 of
      Inl e \<Rightarrow> False
    | Inr rows \<Rightarrow>
        length (select_columns four_candidates) = 4 \<and>
        int (length rows) = rows_budget 5 (length (select_columns four_candidates)) \<and>
        length rows = 7 \<and>
        sorted_wrt row_order rows)"
proof -
  have h1: "four_candidates \<noteq> []" by (simp add: four_candidates_def)
  have h2: "(1::int) \<le> 5" by simp
  have h3: "list_all (\<lambda>b. b_h b \<noteq> 0) four_candidates"
    by (simp add: four_candidates_def b_h_def)
  then have h3': "\<forall>b\<in>set four_candidates. b_h b \<noteq> 0"
    by (simp add: list_all_iff)
  have k: "length (select_columns four_candidates) = 4" by code_simp
  have b: "rows_budget 5 4 = 7" by code_simp
  from grouper_rows[OF h1 h2 h3', of fst snd] obtain rows where
    "group_bubbles_scanned fst snd four_candidates 5 = Inr rows"
    "int (length rows) = rows_budget 5 (length (select_columns four_candidates))"
    "sorted_wrt row_order rows"
    by blast
  with h1 h3 k b show ?thesis by simp
qed

text \<open>
  Phase 4 leaves a row of at most \<open>NUM_CHOICES\<close> bubbles in ascending order of \<open>x\<close>.
\<close>

lemma normalize_row_small_sorted:
  assumes "length (bubbles r) \<le> NUM_CHOICES"
  shows "\<exists>r'. normalize_row contourArea arcLength r = Inr r' \<and> sorted (map b_x (bubbles r'))"
  using assms by (simp add: normalize_row_def)

text \<open>
  Claim C2 (every returned row of two or more bubbles is in ascending order of \<open>x\<close>, also
  after overlap filtering), evaluated on six candidates in one row: the row returned
  holds the five bubbles \<open>filter_overlapping_bubbles\<close> kept, in descending order of
  their score, which is not the order of \<open>x\<close>.
\<close>

theorem filtered_row_not_sorted_by_x:
  "case group_bubbles_scanned fst snd six_in_a_row 1 of
     Inl e \<Rightarrow> False
   | Inr rows \<Rightarrow>
       map (\<lambda>r. map b_x (bubbles r)) rows = [[130, 160, 190, 220, 100]] \<and>
       \<not> sorted (map b_x (bubbles (hd rows)))"
  by code_simp

section \<open>Properties of the mark resolver\<close>

lemma length_indices_of:
  "length (indices_of s xs) = count_list xs s"
proof (induction xs rule: rev_induct)
  case Nil
  then show ?case by (simp add: indices_of_def)
next
  case (snoc x xs)
  have "filter (\<lambda>j. (xs @ [x]) ! j = s) [0..<length xs] = filter (\<lambda>j. xs ! j = s) [0..<length xs]"
    by (rule filter_cong) (simp_all add: nth_append)
  with snoc show ?case
    by (simp add: indices_of_def)
qed

lemma hd_indices_of:
  assumes "indices_of s xs \<noteq> []"
  shows "hd (indices_of s xs) < length xs \<and> xs ! hd (indices_of s xs) = s"
proof -
  from assms have "hd (indices_of s xs) \<in> set (indices_of s xs)"
    by simp
  then show ?thesis
    by (simp add: indices_of_def)
qed

lemma length_row_states: "length (row_states analyze bs) = NUM_CHOICES"
  by (simp add: row_states_def Let_def)

lemma resolve_row_states:
  "resolve_row analyze r = resolve_states (row_states analyze (bubbles r))"
proof (cases "bubbles r = []")
  case True
  have "indices_of s (replicate n BLANK) = []" if "s \<noteq> BLANK" for s n
    using that by (simp add: indices_of_def)
  then show ?thesis
    using True by (simp add: resolve_row_def resolve_states_def row_states_def)
next
  case False
  then show ?thesis by (simp add: resolve_row_def)
qed

text \<open>The \<open>if\<close>/\<open>elif\<close> chain of one row, over the counts of its state list.\<close>

lemma resolve_row_cases:
  assumes "st = row_states analyze (bubbles r)"
  shows "length st = NUM_CHOICES \<and>
         (count_list st FILLED = 1 \<longrightarrow>
            (\<exists>j < NUM_CHOICES. st ! j = FILLED \<and> resolve_row analyze r = Some (int j))) \<and>
         (2 \<le> count_list st FILLED \<longrightarrow> resolve_row analyze r = Some (- 2)) \<and>
         (count_list st FILLED = 0 \<and> count_list st PARTIAL = 1 \<longrightarrow>
            (\<exists>j < NUM_CHOICES. st ! j = PARTIAL \<and> resolve_row analyze r = Some (int j))) \<and>
         (count_list st FILLED = 0 \<and> 2 \<le> count_list st PARTIAL \<longrightarrow>
            resolve_row analyze r = Some (- 3)) \<and>
         (count_list st FILLED = 0 \<and> count_list st PARTIAL = 0 \<longrightarrow>
            resolve_row analyze r = None)"
proof -
  have len: "length st = NUM_CHOICES"
    by (simp add: assms length_row_states)
  have rr: "resolve_row analyze r = resolve_states st"
    by (simp add: assms resolve_row_states)
  note cnt = length_indices_of[of _ st]
  have one: "\<exists>j < NUM_CHOICES. st ! j = s \<and> int (hd (indices_of s st)) = int j"
    if "count_list st s = 1" for s
  proof -
    from that have "indices_of s st \<noteq> []"
      using cnt[of s] by auto
    from hd_indices_of[OF this] show ?thesis
      using len by auto
  qed
  have 1: "count_list st FILLED = 1 \<longrightarrow>
            (\<exists>j < NUM_CHOICES. st ! j = FILLED \<and> resolve_row analyze r = Some (int j))"
    using one[of FILLED] by (auto simp: rr resolve_states_def cnt)
  have 2: "2 \<le> count_list st FILLED \<longrightarrow> resolve_row analyze r = Some (- 2)"
    by (simp add: rr resolve_states_def cnt)
  have 3: "count_list st FILLED = 0 \<and> count_list st PARTIAL = 1 \<longrightarrow>
            (\<exists>j < NUM_CHOICES. st ! j = PARTIAL \<and> resolve_row analyze r = Some (int j))"
    using one[of PARTIAL] by (auto simp: rr resolve_states_def cnt)
  have 4: "count_list st FILLED = 0 \<and> 2 \<le> count_list st PARTIAL \<longrightarrow>
            resolve_row analyze r = Some (- 3)"
    by (simp add: rr resolve_states_def cnt)
  have 5: "count_list st FILLED = 0 \<and> count_list st PARTIAL = 0 \<longrightarrow>
            resolve_row analyze r = None"
    by (simp add: rr resolve_states_def cnt)
  from len 1 2 3 4 5 show ?thesis by blast
qed


lemma row_states_padded: "row_states analyze bs = padded_states analyze bs"
proof (rule nth_equalityI)
  show "length (row_states analyze bs) = length (padded_states analyze bs)"
    by (simp add: row_states_def padded_states_def)
next
  fix j
  assume "j < length (row_states analyze bs)"
  then have j: "j < NUM_CHOICES"
    by (simp add: row_states_def)
  then show "row_states analyze bs ! j = padded_states analyze bs ! j"
    by (simp add: row_states_def padded_states_def nth_append)
qed

lemma padded_states_short:
  assumes "length bs \<le> NUM_CHOICES"
  shows "padded_states analyze bs
           = map (\<lambda>b. fst (analyze b)) bs @ replicate (NUM_CHOICES - length bs) BLANK"
  using assms unfolding row_states_padded[symmetric] by (simp add: row_states_def)

lemma padded_states_bubble:
  assumes "j < NUM_CHOICES" and "padded_states analyze bs ! j = s" and "s \<noteq> BLANK"
  shows "j < length bs \<and> fst (analyze (bs ! j)) = s"
  using assms by (auto simp: padded_states_def split: if_splits)

text \<open>Entry \<open>i\<close> of the result is the mark resolved from row \<open>i\<close>, or \<open>None\<close> where no row is left.\<close>

lemma detect_marked_entry:
  assumes "i < length rows" and "int i < num_questions"
  shows "detect_marked_bubbles_scanned analyze rows num_questions ! i = resolve_row analyze (rows ! i)"
proof -
  from assms(2) have n: "0 \<le> num_questions" and i: "i < nat num_questions" by simp_all
  let ?ma = "map (resolve_row analyze) (take (nat num_questions) rows)"
  have l: "i < length ?ma"
    using assms(1) i by simp
  have "detect_marked_bubbles_scanned analyze rows num_questions ! i
          = (?ma @ replicate (nat num_questions - length ?ma) None) ! i"
    using n i by (simp add: detect_marked_bubbles_scanned_def py_slice_to_def Let_def)
  also have "\<dots> = ?ma ! i"
    using l by (simp add: nth_append)
  also have "\<dots> = resolve_row analyze (rows ! i)"
    using assms(1) i by simp
  finally show ?thesis .
qed

lemma detect_marked_missing_row:
  assumes "length rows \<le> i" and "int i < num_questions"
  shows "detect_marked_bubbles_scanned analyze rows num_questions ! i = None"
proof -
  from assms(2) have n: "0 \<le> num_questions" and i: "i < nat num_questions" by simp_all
  let ?ma = "map (resolve_row analyze) (take (nat num_questions) rows)"
  have l: "length ?ma = length rows"
    using assms(1) i by simp
  have "detect_marked_bubbles_scanned analyze rows num_questions ! i
          = (?ma @ replicate (nat num_questions - length ?ma) None) ! i"
    using n i by (simp add: detect_marked_bubbles_scanned_def py_slice_to_def Let_def)
  also have "\<dots> = None"
    using assms(1) i unfolding l by (simp add: nth_append)
  finally show ?thesis .
qed

text \<open>
  Claim C3. For every row \<open>i\<close> that \<open>detect_marked_bubbles_scanned\<close> resolves, with the
  per-bubble state list of the row padded with \<open>BLANK\<close> to \<open>NUM_CHOICES\<close> entries, entry
  \<open>i\<close> of the result is: the index of the row's bubble that is \<open>FILLED\<close>, when exactly
  one is; \<open>-2\<close> (multiple) for two or more \<open>FILLED\<close>; the index of the row's bubble that
  is \<open>PARTIAL\<close>, for no \<open>FILLED\<close> and exactly one \<open>PARTIAL\<close>; \<open>-3\<close> (ambiguous partial)
  for no \<open>FILLED\<close> and two or more \<open>PARTIAL\<close>; \<open>None\<close> (blank) for every other list,
  whatever \<open>INVALID\<close> states it holds. The state list reads the first \<open>NUM_CHOICES\<close>
  bubbles of the row; for a row of at most \<open>NUM_CHOICES\<close> bubbles it is the states of
  all its bubbles followed by \<open>BLANK\<close>s.
\<close>

theorem mark_resolver_cases:
  assumes "i < length rows" and "int i < num_questions"
    and "bs = bubbles (rows ! i)" and "st = padded_states analyze bs"
  shows "length st = NUM_CHOICES \<and>
         (length bs \<le> NUM_CHOICES \<longrightarrow>
            st = map (\<lambda>b. fst (analyze b)) bs @ replicate (NUM_CHOICES - length bs) BLANK) \<and>
         (count_list st FILLED = 1 \<longrightarrow>
            (\<exists>j. j < NUM_CHOICES \<and> j < length bs \<and> fst (analyze (bs ! j)) = FILLED \<and>
                 detect_marked_bubbles_scanned analyze rows num_questions ! i = Some (int j))) \<and>
         (2 \<le> count_list st FILLED \<longrightarrow>
            detect_marked_bubbles_scanned analyze rows num_questions ! i = Some (- 2)) \<and>
         (count_list st FILLED = 0 \<and> count_list st PARTIAL = 1 \<longrightarrow>
            (\<exists>j. j < NUM_CHOICES \<and> j < length bs \<and> fst (analyze (bs ! j)) = PARTIAL \<and>
                 detect_marked_bubbles_scanned analyze rows num_questions ! i = Some (int j))) \<and>
         (count_list st FILLED = 0 \<and> 2 \<le> count_list st PARTIAL \<longrightarrow>
            detect_marked_bubbles_scanned analyze rows num_questions ! i = Some (- 3)) \<and>
         (count_list st FILLED = 0 \<and> count_list st PARTIAL = 0 \<longrightarrow>
            detect_marked_bubbles_scanned analyze rows num_questions ! i = None)"
proof -
  let ?d = "detect_marked_bubbles_scanned analyze rows num_questions ! i"
  have e: "?d = resolve_row analyze (rows ! i)"
    using assms(1,2) by (rule detect_marked_entry)
  have s: "st = row_states analyze (bubbles (rows ! i))"
    by (simp add: assms(3,4) row_states_padded)
  note c = resolve_row_cases[OF s]
  have len: "length st = NUM_CHOICES"
    using c by blast
  have sh: "length bs \<le> NUM_CHOICES \<longrightarrow>
            st = map (\<lambda>b. fst (analyze b)) bs @ replicate (NUM_CHOICES - length bs) BLANK"
    by (simp add: assms(4) padded_states_short)
  have b: "j < length bs \<and> fst (analyze (bs ! j)) = x"
    if "j < NUM_CHOICES" and "st ! j = x" and "x \<noteq> BLANK" for j x
    using that padded_states_bubble[of j analyze bs x] by (simp add: assms(4))
  have 1: "count_list st FILLED = 1 \<longrightarrow>
            (\<exists>j. j < NUM_CHOICES \<and> j < length bs \<and> fst (analyze (bs ! j)) = FILLED \<and> ?d = Some (int j))"
  proof
    assume "count_list st FILLED = 1"
    with c obtain j where "j < NUM_CHOICES" "st ! j = FILLED"
      "resolve_row analyze (rows ! i) = Some (int j)" by blast
    with b[of j FILLED] e
    show "\<exists>j. j < NUM_CHOICES \<and> j < length bs \<and> fst (analyze (bs ! j)) = FILLED \<and> ?d = Some (int j)"
      by auto
  qed
  have 2: "2 \<le> count_list st FILLED \<longrightarrow> ?d = Some (- 2)"
    using c e by simp
  have 3: "count_list st FILLED = 0 \<and> count_list st PARTIAL = 1 \<longrightarrow>
            (\<exists>j. j < NUM_CHOICES \<and> j < length bs \<and> fst (analyze (bs ! j)) = PARTIAL \<and> ?d = Some (int j))"
  proof
    assume "count_list st FILLED = 0 \<and> count_list st PARTIAL = 1"
    with c obtain j where "j < NUM_CHOICES" "st ! j = PARTIAL"
      "resolve_row analyze (rows ! i) = Some (int j)" by blast
    with b[of j PARTIAL] e
    show "\<exists>j. j < NUM_CHOICES \<and> j < length bs \<and> fst (analyze (bs ! j)) = PARTIAL \<and> ?d = Some (int j)"
      by auto
  qed
  have 4: "count_list st FILLED = 0 \<and> 2 \<le> count_list st PARTIAL \<longrightarrow> ?d = Some (- 3)"
    using c e by simp
  have 5: "count_list st FILLED = 0 \<and> count_list st PARTIAL = 0 \<longrightarrow> ?d = None"
    using c e by simp
  from len sh 1 2 3 4 5 show ?thesis by (intro conjI)
qed

theorem mark_resolver_cases_witness:
  "0 < length [example_row] \<and> int 0 < 3 \<and>
   padded_states example_analyze (bubbles ([example_row] ! 0))
     = [BLANK, FILLED, BLANK, BLANK, BLANK] \<and>
   count_list [BLANK, FILLED, BLANK, BLANK, BLANK] FILLED = 1 \<and>
   (\<exists>j. j < NUM_CHOICES \<and> j < length (bubbles ([example_row] ! 0)) \<and>
        fst (example_analyze (bubbles ([example_row] ! 0) ! j)) = FILLED \<and>
        detect_marked_bubbles_scanned example_analyze [example_row] 3 ! 0 = Some (int j))"
proof -
  have h1: "0 < length [example_row]" by simp
  have h2: "int 0 < 3" by simp
  have h4: "[BLANK, FILLED, BLANK, BLANK, BLANK]
              = padded_states example_analyze (bubbles ([example_row] ! 0))"
    by code_simp
  have c: "count_list [BLANK, FILLED, BLANK, BLANK, BLANK] FILLED = 1"
    by simp
  from mark_resolver_cases[OF h1 h2 refl h4] c h4 show ?thesis
    by simp
qed

lemma valid_mark_resolve_states:
  assumes "length st = NUM_CHOICES"
  shows "valid_mark (resolve_states st)"
proof -
  have "int (hd (indices_of s st)) < int NUM_CHOICES" if "length (indices_of s st) = 1" for s
  proof -
    from that have "indices_of s st \<noteq> []" by auto
    from hd_indices_of[OF this] assms show ?thesis by simp
  qed
  then show ?thesis
    by (simp add: resolve_states_def valid_mark_def Let_def)
qed

lemma valid_mark_resolve_row: "valid_mark (resolve_row analyze r)"
  by (simp add: resolve_row_states valid_mark_resolve_states length_row_states)

text \<open>
  Claim C9. For every row list and every \<open>num_questions \<ge> 0\<close>,
  \<open>detect_marked_bubbles_scanned\<close> returns exactly \<open>num_questions\<close> entries, each \<open>None\<close>,
  \<open>-2\<close>, \<open>-3\<close> or an index below \<open>NUM_CHOICES\<close>.
\<close>

theorem detect_marked_length_range:
  assumes "0 \<le> num_questions"
  shows "length (detect_marked_bubbles_scanned analyze rows num_questions) = nat num_questions \<and>
         list_all valid_mark (detect_marked_bubbles_scanned analyze rows num_questions)"
proof -
  let ?ma = "map (resolve_row analyze) (take (nat num_questions) rows)"
  let ?padded = "?ma @ replicate (nat num_questions - length ?ma) None"
  have d: "detect_marked_bubbles_scanned analyze rows num_questions = take (nat num_questions) ?padded"
    using assms by (simp add: detect_marked_bubbles_scanned_def py_slice_to_def Let_def)
  have l: "length ?padded = nat num_questions"
    by simp
  have vn: "valid_mark None"
    by (simp add: valid_mark_def)
  have v: "list_all valid_mark ?padded"
    using vn by (auto simp: list_all_iff valid_mark_resolve_row)
  have "list_all valid_mark (take (nat num_questions) ?padded)"
    using v by (auto simp: list_all_iff dest: in_set_takeD)
  with l show ?thesis
    unfolding d by simp
qed

theorem detect_marked_length_range_witness:
  "(0::int) \<le> 3 \<and>
   length (detect_marked_bubbles_scanned example_analyze [example_row] 3) = nat 3 \<and>
   list_all valid_mark (detect_marked_bubbles_scanned example_analyze [example_row] 3)"
  using detect_marked_length_range[of 3 example_analyze "[example_row]"] by simp

section \<open>Properties of the scorer\<close>

lemma returns_case:
  "(case x of Inl e \<Rightarrow> False | Inr r \<Rightarrow> True) \<Longrightarrow> \<exists>r. x = Inr r"
  by (cases x) simp_all

lemma tally_step_detailed:
  "t_detailed (tally_step m ci rd t) =
     t_detailed t @ [rd\<lparr> is_correct := (m = Some ci \<or> is_correct rd), status := step_status m ci \<rparr>]"
  by (simp add: tally_step_def step_status_def)

lemma tally_inv_step:
  "tally_inv t \<Longrightarrow> tally_inv (tally_step m ci rd t)"
  by (simp add: tally_inv_def tally_step_def count_status_def)

lemma score_question_Inr:
  assumes "score_question ms answer_key i t = Inr t'"
  obtains oc ml where
    "ord_py (correct_letter_at answer_key i) = Inr oc"
    "marked_letter (marked_at ms i) = Inr ml"
    "t' = tally_step (marked_at ms i) (oc - 65)
            \<lparr> question = int i + 1, marked = ml, correct = correct_letter_at answer_key i,
              is_correct = False, status = Blank \<rparr> t"
  using assms by (auto simp: score_question_def Let_def split: sum.splits)

lemma tally_inv_question:
  "tally_inv t \<Longrightarrow> score_question ms answer_key i t = Inr t' \<Longrightarrow> tally_inv t'"
  by (erule score_question_Inr) (simp add: tally_inv_step)

lemma tally_inv_loop:
  "tally_inv t \<Longrightarrow> score_loop ms answer_key idx t = Inr t' \<Longrightarrow> tally_inv t'"
proof (induction idx arbitrary: t)
  case Nil
  then show ?case by simp
next
  case (Cons i rest)
  then show ?case
    by (auto split: sum.splits dest: tally_inv_question)
qed

lemma tally_inv0: "tally_inv tally0"
  by (simp add: tally_inv_def tally0_def count_status_def)

lemma marked_letter_Inr:
  "marked_letter m = Inr ml \<Longrightarrow> ml = mark_letter_value m"
  by (auto simp: marked_letter_def mark_letter_value_def chr_py_def
      split: option.splits if_splits sum.splits)

lemma score_question_entry:
  assumes "score_question ms answer_key i t = Inr t'"
  shows "t_detailed t' = t_detailed t @ [scored_entry ms answer_key i]"
    and "t_attempted t' = t_attempted t + (if marked_at ms i = None then 0 else 1)"
proof -
  from assms obtain oc ml where
    oc: "ord_py (correct_letter_at answer_key i) = Inr oc" and
    ml: "marked_letter (marked_at ms i) = Inr ml" and
    t': "t' = tally_step (marked_at ms i) (oc - 65)
            \<lparr> question = int i + 1, marked = ml, correct = correct_letter_at answer_key i,
              is_correct = False, status = Blank \<rparr> t"
    by (rule score_question_Inr)
  show "t_detailed t' = t_detailed t @ [scored_entry ms answer_key i]"
    using marked_letter_Inr[OF ml] oc
    by (simp add: t' tally_step_detailed scored_entry_def letter_index_def)
  show "t_attempted t' = t_attempted t + (if marked_at ms i = None then 0 else 1)"
    by (auto simp: t' tally_step_def)
qed

lemma score_loop_entries:
  "score_loop ms answer_key idx t = Inr t' \<Longrightarrow>
   t_detailed t' = t_detailed t @ map (scored_entry ms answer_key) idx \<and>
   t_attempted t' = t_attempted t + length (filter (\<lambda>i. marked_at ms i \<noteq> None) idx)"
proof (induction idx arbitrary: t)
  case Nil
  then show ?case by simp
next
  case (Cons i rest)
  from Cons.prems obtain t1 where
    q: "score_question ms answer_key i t = Inr t1" and
    l: "score_loop ms answer_key rest t1 = Inr t'"
    by (auto split: sum.splits)
  from Cons.IH[OF l] score_question_entry[OF q] show ?case
    by simp
qed

lemma marked_letter_returns: "chr_safe m \<Longrightarrow> \<exists>ml. marked_letter m = Inr ml"
  by (cases m) (simp_all add: chr_safe_def marked_letter_def chr_py_def)

lemma score_question_returns:
  assumes "length (correct_letter_at answer_key i) = 1" and "chr_safe (marked_at ms i)"
  shows "\<exists>t'. score_question ms answer_key i t = Inr t'"
proof -
  from assms(1) obtain c where c: "correct_letter_at answer_key i = [c]"
    by (cases "correct_letter_at answer_key i") auto
  from marked_letter_returns[OF assms(2)] obtain ml where
    "marked_letter (marked_at ms i) = Inr ml" by blast
  then show ?thesis
    by (simp add: score_question_def c ord_py_def)
qed

lemma score_loop_returns:
  assumes "\<forall>i\<in>set idx. length (correct_letter_at answer_key i) = 1 \<and> chr_safe (marked_at ms i)"
  shows "\<exists>t'. score_loop ms answer_key idx t = Inr t'"
  using assms
proof (induction idx arbitrary: t)
  case Nil
  then show ?case by simp
next
  case (Cons i rest)
  then obtain t1 where "score_question ms answer_key i t = Inr t1"
    using score_question_returns[of answer_key i ms t] by auto
  with Cons show ?case by simp
qed

lemma count_status_total:
  "count_status Correct ds + count_status Wrong ds + count_status Blank ds
   + count_status Multiple ds + count_status Partial ds + count_status Invalid ds = length ds"
proof (induction ds)
  case Nil
  then show ?case by (simp add: count_status_def)
next
  case (Cons d ds)
  then show ?case by (cases "status d") (simp_all add: count_status_def)
qed

lemma valid_mark_at: "list_all valid_mark ms \<Longrightarrow> valid_mark (marked_at ms i)"
  by (simp add: marked_at_def valid_mark_def list_all_length)

lemma step_status_valid: "valid_mark m \<Longrightarrow> step_status m ci \<noteq> Invalid"
  by (auto simp: valid_mark_def step_status_def split: option.splits)

lemma no_invalid_entries:
  "list_all valid_mark ms \<Longrightarrow> count_status Invalid (map (scored_entry ms answer_key) idx) = 0"
  by (induction idx) (simp_all add: count_status_def scored_entry_def step_status_valid valid_mark_at)

lemma finish_report_eq:
  "finish_report n t =
     (if n = 0 then Inl (ZeroDivisionError (py ''division by zero''))
      else Inr (report_of_tally n t))"
  unfolding finish_report_def report_of_tally_def Let_def by (rule refl)

lemma score_answers_with_key_Inr:
  assumes "score_answers_with_key ms answer_key n = Inr r"
  obtains t where "score_loop ms answer_key [0..<nat n] tally0 = Inr t"
    and "r = report_of_tally n t" and "n \<noteq> 0"
proof -
  from assms obtain t where l: "score_loop ms answer_key [0..<nat n] tally0 = Inr t"
    and f: "finish_report n t = Inr r"
    unfolding score_answers_with_key_def by (cases "score_loop ms answer_key [0..<nat n] tally0") simp_all
  from f have "n \<noteq> 0" and "r = report_of_tally n t"
    unfolding finish_report_eq by (simp_all split: if_splits)
  with l that show thesis by blast
qed

lemma report_of_tally_fields:
  "score (report_of_tally n t) = t_score t"
  "attempted (report_of_tally n t) = t_attempted t"
  "correct_answers (report_of_tally n t) = t_score t"
  "incorrect_answers (report_of_tally n t) = t_wrong_answers t"
  "blank_answers (report_of_tally n t) = t_blank_answers t"
  "multiple_marks (report_of_tally n t) = t_multiple_marks t"
  "partial_marks (report_of_tally n t) = t_partial_marks t"
  "invalid_answers (report_of_tally n t) = t_invalid_answers t"
  "detailed_responses (report_of_tally n t) = t_detailed t"
  "responses (report_of_tally n t) = map marked (t_detailed t)"
  "total_questions (report_of_tally n t) = n"
  "accuracy (report_of_tally n t) = (if 0 < t_attempted t
                 then of_nat (t_score t) / of_nat (t_attempted t) * 100 else 0)"
  unfolding report_of_tally_def by simp_all

lemma letter_index_A: "letter_index (py ''A'') = 0"
  by (simp add: letter_index_def ord_py_def py_def)

lemma chr_safe_at: "list_all chr_safe ms \<Longrightarrow> chr_safe (marked_at ms i)"
  by (simp add: marked_at_def chr_safe_def list_all_length)

lemma correct_letter_at_single:
  "list_all (\<lambda>s. length s = 1) answer_key \<Longrightarrow> length (correct_letter_at answer_key i) = 1"
  by (simp add: correct_letter_at_def py_def list_all_length)

lemma score_answers_with_key_returns:
  assumes "n \<noteq> 0" and "list_all (\<lambda>s. length s = 1) answer_key" and "list_all chr_safe ms"
  shows "\<exists>t. score_loop ms answer_key [0..<nat n] tally0 = Inr t \<and>
             score_answers_with_key ms answer_key n = Inr (report_of_tally n t)"
proof -
  from score_loop_returns[of "[0..<nat n]" answer_key ms tally0]
  obtain t where l: "score_loop ms answer_key [0..<nat n] tally0 = Inr t"
    using correct_letter_at_single[OF assms(2)] chr_safe_at[OF assms(3)] by blast
  then show ?thesis
    using assms(1) by (simp add: score_answers_with_key_def finish_report_eq)
qed

text \<open>
  Claim C4. For a marked-answer list whose entries are \<open>None\<close>, \<open>-2\<close>, \<open>-3\<close> or an index
  below \<open>NUM_CHOICES\<close>, and an answer key of length \<open>num_questions\<close>, the report of
  \<open>score_answers_with_key\<close> satisfies: \<open>score\<close> is the number of questions with status
  \<open>correct\<close>; \<open>correct + wrong + blank + multiple + partial = num_questions\<close>;
  \<open>attempted + blank = num_questions\<close>; \<open>invalid_answers = multiple_marks + partial_marks\<close>;
  and \<open>accuracy = score / attempted * 100\<close>, or \<open>0\<close> when nothing was attempted.
\<close>

theorem score_report_counts:
  assumes "list_all valid_mark ms" and "int (length answer_key) = n"
    and "score_answers_with_key ms answer_key n = Inr r"
  shows "score r = count_status Correct (detailed_responses r) \<and>
         int (correct_answers r + incorrect_answers r + blank_answers r
              + multiple_marks r + partial_marks r) = n \<and>
         int (attempted r + blank_answers r) = n \<and>
         invalid_answers r = multiple_marks r + partial_marks r \<and>
         accuracy r = (if attempted r = 0 then 0
                       else of_nat (score r) / of_nat (attempted r) * 100)"
proof -
  from assms(3) obtain t where
    l: "score_loop ms answer_key [0..<nat n] tally0 = Inr t" and
    f: "r = report_of_tally n t" and n0: "n \<noteq> 0"
    by (rule score_answers_with_key_Inr)
  have inv: "tally_inv t"
    using tally_inv_loop[OF tally_inv0 l] .
  have d: "t_detailed t = map (scored_entry ms answer_key) [0..<nat n]"
    using score_loop_entries[OF l] by (simp add: tally0_def)
  have len: "int (length (t_detailed t)) = n"
    using assms(2) by (simp add: d)
  have ni: "count_status Invalid (t_detailed t) = 0"
    using no_invalid_entries[OF assms(1)] by (simp add: d)
  note tot = count_status_total[of "t_detailed t"]
  note ff = f report_of_tally_fields
  have 1: "score r = count_status Correct (detailed_responses r)"
    using inv by (simp add: ff tally_inv_def)
  have 2: "int (correct_answers r + incorrect_answers r + blank_answers r
              + multiple_marks r + partial_marks r) = n"
    using inv tot ni len by (simp add: ff tally_inv_def)
  have 3: "int (attempted r + blank_answers r) = n"
    using inv len by (simp add: ff tally_inv_def)
  have 4: "invalid_answers r = multiple_marks r + partial_marks r"
    using inv ni by (simp add: ff tally_inv_def)
  have 5: "accuracy r = (if attempted r = 0 then 0
                       else of_nat (score r) / of_nat (attempted r) * 100)"
    by (simp add: ff)
  from 1 2 3 4 5 show ?thesis by blast
qed

theorem score_report_counts_witness:
  "list_all valid_mark [Some 0, Some (- 2), None, Some 3] \<and>
   int (length [py ''A'', py ''B'', py ''C'', py ''D'']) = 4 \<and>
   (case score_answers_with_key [Some 0, Some (- 2), None, Some 3]
           [py ''A'', py ''B'', py ''C'', py ''D''] 4 of
      Inl e \<Rightarrow> False
    | Inr r \<Rightarrow>
        score r = count_status Correct (detailed_responses r) \<and>
        int (correct_answers r + incorrect_answers r + blank_answers r
              + multiple_marks r + partial_marks r) = 4 \<and>
        int (attempted r + blank_answers r) = 4 \<and>
        invalid_answers r = multiple_marks r + partial_marks r \<and>
        accuracy r = (if attempted r = 0 then 0
                       else of_nat (score r) / of_nat (attempted r) * 100))"
proof -
  have h1: "list_all valid_mark [Some 0, Some (- 2), None, Some 3]"
    by code_simp
  have h2: "int (length [py ''A'', py ''B'', py ''C'', py ''D'']) = 4"
    by simp
  have "case score_answers_with_key [Some 0, Some (- 2), None, Some 3]
           [py ''A'', py ''B'', py ''C'', py ''D''] 4 of
      Inl e \<Rightarrow> False | Inr r \<Rightarrow> True"
    by code_simp
  then obtain r where h3: "score_answers_with_key [Some 0, Some (- 2), None, Some 3]
           [py ''A'', py ''B'', py ''C'', py ''D''] 4 = Inr r"
    using returns_case by blast
  from score_report_counts[OF h1 h2 h3] h1 h2 show ?thesis
    unfolding h3 by simp
qed

text \<open>
  Claim C7. For every report of the scorer,
  \<open>confidence = max(30, clamp(70 + (accuracy - 50) * 0.3, 50, 95)
     - (multiple_marks + partial_marks) / num_questions * 20)\<close>, in exact arithmetic.
\<close>

theorem confidence_formula:
  assumes "score_answers_with_key ms answer_key n = Inr r"
  shows "confidence (metadata r) =
           max 30 (clamp (70 + (accuracy r - 50) * (3 / 10)) 50 95
                   - of_nat (multiple_marks r + partial_marks r) / of_int n * 20)"
proof -
  from assms obtain t where r: "r = report_of_tally n t"
    by (rule score_answers_with_key_Inr)
  have c: "max 50 (min 95 v) = clamp v 50 95" for v :: rat
    by (simp add: clamp_def max_def min_def)
  show ?thesis
    unfolding r report_of_tally_def by (simp add: c)
qed

theorem confidence_formula_witness:
  "case score_answers_with_key [Some 0, Some (- 2), None, Some 3]
           [py ''A'', py ''B'', py ''C'', py ''D''] 4 of
      Inl e \<Rightarrow> False
    | Inr r \<Rightarrow> confidence (metadata r) =
           max 30 (clamp (70 + (accuracy r - 50) * (3 / 10)) 50 95
                   - of_nat (multiple_marks r + partial_marks r) / of_int 4 * 20)"
proof -
  have "case score_answers_with_key [Some 0, Some (- 2), None, Some 3]
           [py ''A'', py ''B'', py ''C'', py ''D''] 4 of
      Inl e \<Rightarrow> False | Inr r \<Rightarrow> True"
    by code_simp
  then obtain r where h: "score_answers_with_key [Some 0, Some (- 2), None, Some 3]
           [py ''A'', py ''B'', py ''C'', py ''D''] 4 = Inr r"
    using returns_case by blast
  from confidence_formula[OF h] show ?thesis
    unfolding h by simp
qed

text \<open>
  Claim C8. For a fixed marked-answer list and \<open>num_questions\<close>, two answer keys that are
  permutations of each other give reports with the same \<open>attempted\<close> count and the same
  per-question \<open>marked\<close> values.
\<close>

theorem key_permutation_marked:
  assumes "mset k1 = mset k2"
    and "score_answers_with_key ms k1 n = Inr r1"
    and "score_answers_with_key ms k2 n = Inr r2"
  shows "attempted r1 = attempted r2 \<and>
         responses r1 = responses r2 \<and>
         map marked (detailed_responses r1) = map marked (detailed_responses r2) \<and>
         map question (detailed_responses r1) = map question (detailed_responses r2)"
proof -
  from assms(2) obtain t1 where
    l1: "score_loop ms k1 [0..<nat n] tally0 = Inr t1" and r1: "r1 = report_of_tally n t1"
    by (rule score_answers_with_key_Inr)
  from assms(3) obtain t2 where
    l2: "score_loop ms k2 [0..<nat n] tally0 = Inr t2" and r2: "r2 = report_of_tally n t2"
    by (rule score_answers_with_key_Inr)
  note e1 = score_loop_entries[OF l1] and e2 = score_loop_entries[OF l2]
  have a: "t_attempted t1 = t_attempted t2"
    using e1 e2 by simp
  have m: "map marked (t_detailed t1) = map marked (t_detailed t2)"
    using e1 e2 by (simp add: tally0_def scored_entry_def)
  have q: "map question (t_detailed t1) = map question (t_detailed t2)"
    using e1 e2 by (simp add: tally0_def scored_entry_def)
  show ?thesis
    by (simp add: r1 r2 report_of_tally_fields a m q)
qed

theorem key_permutation_marked_witness:
  "mset [py ''A'', py ''B''] = mset [py ''B'', py ''A''] \<and>
   (case score_answers_with_key [Some 0, Some 1] [py ''A'', py ''B''] 2 of
      Inl e \<Rightarrow> False
    | Inr r1 \<Rightarrow>
       (case score_answers_with_key [Some 0, Some 1] [py ''B'', py ''A''] 2 of
          Inl e \<Rightarrow> False
        | Inr r2 \<Rightarrow>
            attempted r1 = attempted r2 \<and>
            responses r1 = responses r2 \<and>
            map marked (detailed_responses r1) = map marked (detailed_responses r2) \<and>
            map question (detailed_responses r1) = map question (detailed_responses r2)))"
proof -
  have h1: "mset [py ''A'', py ''B''] = mset [py ''B'', py ''A'']"
    by (simp add: add.commute)
  have "case score_answers_with_key [Some 0, Some 1] [py ''A'', py ''B''] 2 of
      Inl e \<Rightarrow> False | Inr r \<Rightarrow> True"
    by code_simp
  then obtain r1 where h2: "score_answers_with_key [Some 0, Some 1] [py ''A'', py ''B''] 2 = Inr r1"
    using returns_case by blast
  have "case score_answers_with_key [Some 0, Some 1] [py ''B'', py ''A''] 2 of
      Inl e \<Rightarrow> False | Inr r \<Rightarrow> True"
    by code_simp
  then obtain r2 where h3: "score_answers_with_key [Some 0, Some 1] [py ''B'', py ''A''] 2 = Inr r2"
    using returns_case by blast
  from key_permutation_marked[OF h1 h2 h3] h1 show ?thesis
    unfolding h2 h3 by simp
qed

text \<open>
  Claim C6, as stated: on seed scenario 1 the report has score 20, accuracy 100 and
  confidence 95. The confidence is not 95: \<open>70 + (100 - 50) * 0.3 = 85\<close> lies below the
  upper bound of the clamp.
\<close>

theorem seed1_confidence_not_95:
  "\<not> (case score_answers_with_key seed1_marks seed1_key 20 of
         Inl e \<Rightarrow> False
       | Inr r \<Rightarrow> score r = 20 \<and> accuracy r = 100 \<and> confidence (metadata r) = 95)"
  by code_simp

text \<open>
  Claim C6, amended: on seed scenario 1 the report has score 20, accuracy 100 and
  confidence 85.
\<close>

theorem seed1_report:
  "case score_answers_with_key seed1_marks seed1_key 20 of
     Inl e \<Rightarrow> False
   | Inr r \<Rightarrow> score r = 20 \<and> accuracy r = 100 \<and> confidence (metadata r) = 85"
  by code_simp

text \<open>
  Claim C10. When the answer key has fewer entries than \<open>num_questions\<close> (its entries
  one-character strings, the marks within the range of \<open>chr\<close>), the scorer returns a
  report, and every question at an index beyond the key's length is scored against the
  letter \<open>'A'\<close>: its \<open>correct\<close> letter is \<open>'A'\<close> and it is correct exactly when its
  mark is index 0.
\<close>

theorem short_key_defaults_to_A:
  assumes "int (length answer_key) < n"
    and "list_all (\<lambda>s. length s = 1) answer_key"
    and "list_all chr_safe ms"
  shows "\<exists>r. score_answers_with_key ms answer_key n = Inr r \<and>
             length (detailed_responses r) = nat n \<and>
             (\<forall>i. length answer_key \<le> i \<and> i < nat n \<longrightarrow>
                  correct (detailed_responses r ! i) = py ''A'' \<and>
                  is_correct (detailed_responses r ! i) = (marked_at ms i = Some 0) \<and>
                  status (detailed_responses r ! i) = step_status (marked_at ms i) 0)"
proof -
  from assms(1) have n0: "n \<noteq> 0" by auto
  from score_answers_with_key_returns[OF n0 assms(2,3)] obtain t where
    l: "score_loop ms answer_key [0..<nat n] tally0 = Inr t" and
    s: "score_answers_with_key ms answer_key n = Inr (report_of_tally n t)"
    by blast
  have d: "t_detailed t = map (scored_entry ms answer_key) [0..<nat n]"
    using score_loop_entries[OF l] by (simp add: tally0_def)
  have e: "correct (t_detailed t ! i) = py ''A'' \<and>
           is_correct (t_detailed t ! i) = (marked_at ms i = Some 0) \<and>
           status (t_detailed t ! i) = step_status (marked_at ms i) 0"
    if "length answer_key \<le> i" and "i < nat n" for i
  proof -
    have c: "correct_letter_at answer_key i = py ''A''"
      using that(1) by (simp add: correct_letter_at_def)
    show ?thesis
      using that(2) by (simp add: d scored_entry_def c letter_index_A)
  qed
  show ?thesis
    using s e by (simp add: report_of_tally_fields d)
qed

theorem short_key_defaults_to_A_witness:
  "int (length [py ''B'']) < 3 \<and>
   list_all (\<lambda>s. length s = 1) [py ''B''] \<and>
   list_all chr_safe [Some 1, Some 0, Some 2] \<and>
   (case score_answers_with_key [Some 1, Some 0, Some 2] [py ''B''] 3 of
      Inl e \<Rightarrow> False
    | Inr r \<Rightarrow>
        length (detailed_responses r) = 3 \<and>
        correct (detailed_responses r ! 1) = py ''A'' \<and>
        is_correct (detailed_responses r ! 1) \<and>
        status (detailed_responses r ! 2) = Wrong)"
proof -
  have h1: "int (length [py ''B'']) < 3" by simp
  have h2: "list_all (\<lambda>s. length s = 1) [py ''B'']" by (simp add: py_def)
  have h3: "list_all chr_safe [Some 1, Some 0, Some 2]" by (simp add: chr_safe_def)
  from short_key_defaults_to_A[OF h1 h2 h3] obtain r where
    r: "score_answers_with_key [Some 1, Some 0, Some 2] [py ''B''] 3 = Inr r" and
    l: "length (detailed_responses r) = nat 3" and
    a: "\<And>i. length [py ''B''] \<le> i \<and> i < nat 3 \<Longrightarrow>
          correct (detailed_responses r ! i) = py ''A'' \<and>
          is_correct (detailed_responses r ! i) = (marked_at [Some 1, Some 0, Some 2] i = Some 0) \<and>
          status (detailed_responses r ! i) = step_status (marked_at [Some 1, Some 0, Some 2] i) 0"
    by blast
  have a1: "correct (detailed_responses r ! 1) = py ''A'' \<and> is_correct (detailed_responses r ! 1)"
    using a[of 1] by (simp add: marked_at_def)
  have a2: "status (detailed_responses r ! 2) = Wrong"
    using a[of 2] by (simp add: marked_at_def step_status_def)
  from h1 h2 h3 l a1 a2 show ?thesis
    unfolding r by simp
qed

section \<open>Properties of the pipeline\<close>

lemma add_student_fields_Inr:
  "add_student_fields rep student_id = Inr r \<Longrightarrow>
   report.truncate r = rep \<and> studentId r = student_id \<and> rank r = py ''Cadet''"
  by (auto simp: add_student_fields_def Let_def report.truncate_def report.extend_def
      omr_result.fields_def split: if_splits)

lemma omr_pipeline_Inr:
  assumes "omr_pipeline cv image_data answer_key n student_id = Inr r"
  shows "\<exists>img gray thresh bubble_contours rows rep.
           cv_imdecode cv image_data = Inr (Some img) \<and>
           preprocess_scanned_image cv img = Inr (gray, thresh) \<and>
           detect_bubbles_scanned cv thresh gray = Inr bubble_contours \<and>
           bubble_contours \<noteq> [] \<and>
           group_bubbles_scanned (cv_contourArea cv) (cv_arcLength cv) bubble_contours n = Inr rows \<and>
           rows \<noteq> [] \<and>
           score_answers_with_key
             (detect_marked_bubbles_scanned (analyze_bubble_fill_scanned cv gray) rows n)
             answer_key n = Inr rep \<and>
           add_student_fields rep student_id = Inr r"
  using assms unfolding omr_pipeline_def Let_def
  by (simp split: sum.splits option.splits prod.splits if_splits)

text \<open>
  Claim C5, as stated: the pipeline surfaces four distinct error kinds. A failure to
  decode and a failure after scoring (a student id without \<open>_\<close>) are both raised as the
  one exception class \<open>ValueError\<close>; only the text of the message tells them apart.
\<close>

theorem error_kinds_one_class:
  "process_omr_image cv_undecodable [] [py ''A''] 1 (py ''STUDENT_001'') =
     Inl (ValueError (py ''Failed to process OMR image: Could not decode image'')) \<and>
   process_omr_image cv_one_bubble [] [py ''A''] 1 (py ''STUDENT'') =
     Inl (ValueError (py ''Failed to process OMR image: list index out of range''))"
  by code_simp

text \<open>
  Claim C5, amended: every failure of \<open>process_omr_image\<close> is a \<open>ValueError\<close> whose
  message is \<open>Failed to process OMR image: \<close> followed by the message of the cause.
  Undecodable bytes, an empty candidate list and an empty row list have three fixed,
  pairwise different messages; any other exception \<open>x\<close> raised in the body gives
  \<open>str(x)\<close>. The first failing stage decides the result, and a result that is returned
  holds the scorer's complete report of a run in which every stage succeeded.
\<close>

theorem process_omr_image_errors:
  "(process_omr_image cv image_data answer_key n student_id = Inl e \<longrightarrow>
      (\<exists>m. e = ValueError (py ''Failed to process OMR image: '' @ m))) \<and>
   (cv_imdecode cv image_data = Inr None \<longrightarrow>
      process_omr_image cv image_data answer_key n student_id =
        Inl (ValueError (py ''Failed to process OMR image: '' @ py ''Could not decode image''))) \<and>
   (cv_imdecode cv image_data = Inr (Some img) \<and>
    preprocess_scanned_image cv img = Inr (gray, thresh) \<and>
    detect_bubbles_scanned cv thresh gray = Inr [] \<longrightarrow>
      process_omr_image cv image_data answer_key n student_id =
        Inl (ValueError (py ''Failed to process OMR image: '' @
               py ''No bubble contours detected. Check image quality and parameters.''))) \<and>
   (cv_imdecode cv image_data = Inr (Some img) \<and>
    preprocess_scanned_image cv img = Inr (gray, thresh) \<and>
    detect_bubbles_scanned cv thresh gray = Inr bubble_contours \<and> bubble_contours \<noteq> [] \<and>
    group_bubbles_scanned (cv_contourArea cv) (cv_arcLength cv) bubble_contours n = Inr [] \<longrightarrow>
      process_omr_image cv image_data answer_key n student_id =
        Inl (ValueError (py ''Failed to process OMR image: '' @
               py ''No structured rows detected. Check bubble grouping parameters.''))) \<and>
   (omr_pipeline cv image_data answer_key n student_id = Inl x \<longrightarrow>
      process_omr_image cv image_data answer_key n student_id =
        Inl (ValueError (py ''Failed to process OMR image: '' @ str_exn x))) \<and>
   (process_omr_image cv image_data answer_key n student_id = Inr r \<longrightarrow>
      (\<exists>img gray thresh bubble_contours rows rep.
           cv_imdecode cv image_data = Inr (Some img) \<and>
           preprocess_scanned_image cv img = Inr (gray, thresh) \<and>
           detect_bubbles_scanned cv thresh gray = Inr bubble_contours \<and>
           bubble_contours \<noteq> [] \<and>
           group_bubbles_scanned (cv_contourArea cv) (cv_arcLength cv) bubble_contours n = Inr rows \<and>
           rows \<noteq> [] \<and>
           score_answers_with_key
             (detect_marked_bubbles_scanned (analyze_bubble_fill_scanned cv gray) rows n)
             answer_key n = Inr rep \<and>
           report.truncate r = rep \<and> studentId r = student_id)) \<and>
   py ''Could not decode image''
     \<noteq> py ''No bubble contours detected. Check image quality and parameters.'' \<and>
   py ''Could not decode image''
     \<noteq> py ''No structured rows detected. Check bubble grouping parameters.'' \<and>
   py ''No bubble contours detected. Check image quality and parameters.''
     \<noteq> py ''No structured rows detected. Check bubble grouping parameters.''"
proof -
  let ?p = "process_omr_image cv image_data answer_key n student_id"
  have 1: "?p = Inl e \<longrightarrow> (\<exists>m. e = ValueError (py ''Failed to process OMR image: '' @ m))"
    by (auto simp: process_omr_image_def split: sum.splits)
  have 2: "cv_imdecode cv image_data = Inr None \<longrightarrow>
      ?p = Inl (ValueError (py ''Failed to process OMR image: '' @ py ''Could not decode image''))"
    by (simp add: process_omr_image_def omr_pipeline_def)
  have 3: "cv_imdecode cv image_data = Inr (Some img) \<and>
      preprocess_scanned_image cv img = Inr (gray, thresh) \<and>
      detect_bubbles_scanned cv thresh gray = Inr [] \<longrightarrow>
      ?p = Inl (ValueError (py ''Failed to process OMR image: '' @
               py ''No bubble contours detected. Check image quality and parameters.''))"
    by (simp add: process_omr_image_def omr_pipeline_def)
  have 4: "cv_imdecode cv image_data = Inr (Some img) \<and>
      preprocess_scanned_image cv img = Inr (gray, thresh) \<and>
      detect_bubbles_scanned cv thresh gray = Inr bubble_contours \<and> bubble_contours \<noteq> [] \<and>
      group_bubbles_scanned (cv_contourArea cv) (cv_arcLength cv) bubble_contours n = Inr [] \<longrightarrow>
      ?p = Inl (ValueError (py ''Failed to process OMR image: '' @
               py ''No structured rows detected. Check bubble grouping parameters.''))"
    by (simp add: process_omr_image_def omr_pipeline_def)
  have 5: "omr_pipeline cv image_data answer_key n student_id = Inl x \<longrightarrow>
      ?p = Inl (ValueError (py ''Failed to process OMR image: '' @ str_exn x))"
    by (simp add: process_omr_image_def)
  have 6: "?p = Inr r \<longrightarrow>
      (\<exists>img gray thresh bubble_contours rows rep.
           cv_imdecode cv image_data = Inr (Some img) \<and>
           preprocess_scanned_image cv img = Inr (gray, thresh) \<and>
           detect_bubbles_scanned cv thresh gray = Inr bubble_contours \<and>
           bubble_contours \<noteq> [] \<and>
           group_bubbles_scanned (cv_contourArea cv) (cv_arcLength cv) bubble_contours n = Inr rows \<and>
           rows \<noteq> [] \<and>
           score_answers_with_key
             (detect_marked_bubbles_scanned (analyze_bubble_fill_scanned cv gray) rows n)
             answer_key n = Inr rep \<and>
           report.truncate r = rep \<and> studentId r = student_id)"
  proof
    assume "?p = Inr r"
    then have "omr_pipeline cv image_data answer_key n student_id = Inr r"
      by (simp add: process_omr_image_def split: sum.splits)
    from omr_pipeline_Inr[OF this] show "\<exists>img gray thresh bubble_contours rows rep.
           cv_imdecode cv image_data = Inr (Some img) \<and>
           preprocess_scanned_image cv img = Inr (gray, thresh) \<and>
           detect_bubbles_scanned cv thresh gray = Inr bubble_contours \<and>
           bubble_contours \<noteq> [] \<and>
           group_bubbles_scanned (cv_contourArea cv) (cv_arcLength cv) bubble_contours n = Inr rows \<and>
           rows \<noteq> [] \<and>
           score_answers_with_key
             (detect_marked_bubbles_scanned (analyze_bubble_fill_scanned cv gray) rows n)
             answer_key n = Inr rep \<and>
           report.truncate r = rep \<and> studentId r = student_id"
      using add_student_fields_Inr by blast
  qed
  have 7: "py ''Could not decode image''
     \<noteq> py ''No bubble contours detected. Check image quality and parameters.''"
    by (simp add: py_def)
  have 8: "py ''Could not decode image''
     \<noteq> py ''No structured rows detected. Check bubble grouping parameters.''"
    by (simp add: py_def)
  have 9: "py ''No bubble contours detected. Check image quality and parameters.''
     \<noteq> py ''No structured rows detected. Check bubble grouping parameters.''"
    by (simp add: py_def)
  from 1 2 3 4 5 6 7 8 9 show ?thesis by (intro conjI)
qed

theorem process_omr_image_errors_witness:
  "cv_imdecode cv_undecodable [] = Inr None \<and>
   process_omr_image cv_undecodable [] [py ''A''] 1 (py ''STUDENT_001'') =
     Inl (ValueError (py ''Failed to process OMR image: '' @ py ''Could not decode image''))"
proof -
  have h: "cv_imdecode cv_undecodable [] = Inr None"
    by (simp add: cv_undecodable_def)
  from process_omr_image_errors[of cv_undecodable "[]" "[py ''A'']" 1 "py ''STUDENT_001''"] h
  show ?thesis by blast
qed

end
